theory Spec2Isabelle
  imports Complex_Main "HOL-Library.Sublist"
begin

section \<open>JavaScript values\<close>

text \<open>
  A JavaScript number is an IEEE double. Every finite double is a rational number, so the
  finite ones are embedded in \<open>rat\<close> and the three special values are constructors.
  Comparisons and \<open>Math.floor\<close> are exact on doubles, so nothing below depends on
  rounding.
\<close>

datatype jsnum = NaN | PosInf | NegInf | Fin rat

text \<open>The relational operators \<open><\<close> and \<open>>=\<close> of JavaScript: false as soon as one side is NaN.\<close>

fun js_lt :: "jsnum \<Rightarrow> jsnum \<Rightarrow> bool" where
  "js_lt NaN b = False"
| "js_lt a NaN = False"
| "js_lt PosInf b = False"
| "js_lt a NegInf = False"
| "js_lt NegInf b = True"
| "js_lt a PosInf = True"
| "js_lt (Fin x) (Fin y) = (x < y)"

definition js_ge :: "jsnum \<Rightarrow> jsnum \<Rightarrow> bool" where
  "js_ge a b = (a \<noteq> NaN \<and> b \<noteq> NaN \<and> \<not> js_lt a b)"

text \<open>
  The values \<open>JSON.parse\<close> and \<open>response.json()\<close> produce. An object is the list of
  its entries in the order \<open>Object.entries\<close> enumerates them. \<open>undefined\<close> is not a
  JSON value: a property read that finds nothing is \<open>None\<close> of \<open>json option\<close>.
\<close>

datatype json =
    JNull
  | JBool bool
  | JNum jsnum
  | JStr string
  | JArr "json list"
  | JObj "(string \<times> json) list"

text \<open>Truthiness, as \<open>if (v)\<close>, \<open>!v\<close> and \<open>Boolean(v)\<close> read a value.\<close>

fun truthy :: "json \<Rightarrow> bool" where
  "truthy JNull = False"
| "truthy (JBool b) = b"
| "truthy (JNum n) = (n \<noteq> NaN \<and> n \<noteq> Fin 0)"
| "truthy (JStr s) = (s \<noteq> [])"
| "truthy (JArr xs) = True"
| "truthy (JObj kvs) = True"

definition truthy_opt :: "json option \<Rightarrow> bool" where
  "truthy_opt v = (case v of None \<Rightarrow> False | Some x \<Rightarrow> truthy x)"

text \<open>A value of type \<open>string | undefined | null\<close>: absent and empty are both falsy.\<close>

definition truthy_str :: "string option \<Rightarrow> bool" where
  "truthy_str v = (case v of None \<Rightarrow> False | Some s \<Rightarrow> s \<noteq> [])"

text \<open>What the code can throw and what a \<open>catch\<close> receives.\<close>

datatype exn =
    TypeError
  | NetworkError
  | SyntaxError
  | ConfigError string

text \<open>
  The property read \<open>v.key\<close> on a parsed value: reading from \<open>null\<close> throws a
  TypeError, an object gives its member, every other value gives \<open>undefined\<close> for the
  keys read here (\<open>name\<close>, \<open>models\<close>, \<open>model_info\<close>, \<open>ollama\<close>).
\<close>

fun get_member :: "json \<Rightarrow> string \<Rightarrow> exn + json option" where
  "get_member JNull k = Inl TypeError"
| "get_member (JObj kvs) k = Inr (map_of kvs k)"
| "get_member v k = Inr None"

section \<open>String operations\<close>

definition startsWith :: "string \<Rightarrow> string \<Rightarrow> bool" where
  "startsWith s t = (take (length t) s = t)"

definition endsWith :: "string \<Rightarrow> string \<Rightarrow> bool" where
  "endsWith s t = (length t \<le> length s \<and> drop (length s - length t) s = t)"

fun includes_str :: "string \<Rightarrow> string \<Rightarrow> bool" where
  "includes_str [] t = (t = [])"
| "includes_str (c # cs) t = (startsWith (c # cs) t \<or> includes_str cs t)"

text \<open>\<open>toLowerCase\<close> on the ASCII letters; every other character is kept.\<close>

definition lower_char :: "char \<Rightarrow> char" where
  "lower_char c =
     (let n = (of_char c :: nat) in if 65 \<le> n \<and> n \<le> 90 then char_of (n + 32) else c)"

definition toLowerCase :: "string \<Rightarrow> string" where
  "toLowerCase s = map lower_char s"

text \<open>
  The characters \<open>String.prototype.trim\<close> removes, among the one-byte characters: tab,
  line feed, vertical tab, form feed, carriage return, space and the no-break space.
\<close>

definition is_ws :: "char \<Rightarrow> bool" where
  "is_ws c = ((of_char c :: nat) \<in> {9, 10, 11, 12, 13, 32, 160})"

definition trim :: "string \<Rightarrow> string" where
  "trim s = rev (dropWhile is_ws (rev (dropWhile is_ws s)))"

section \<open>The model filter (src/agents/live-model-filter.ts)\<close>

record ModelRef =
  provider :: "string option"
  ref_id :: "string option"

text \<open>
  \<open>ref.provider?.trim()\<close> is \<open>undefined\<close> when the field is \<open>null\<close> or
  \<open>undefined\<close>; the result is \<open>!!provider && !!id\<close>.
\<close>

definition isModernModelRef :: "ModelRef \<Rightarrow> bool" where
  "isModernModelRef r =
     (let p = map_option trim (provider r);
          i = map_option trim (ref_id r)
      in truthy_str p \<and> truthy_str i)"

section \<open>The Ollama API base (src/agents/models-config.providers.ts)\<close>

text \<open>\<open>s.replace(/\/+$/, "")\<close>: the whole run of slashes at the end of the string goes.\<close>

definition strip_trailing_slashes :: "string \<Rightarrow> string" where
  "strip_trailing_slashes s = rev (dropWhile (\<lambda>c. c = CHR ''/'') (rev s))"

text \<open>\<open>s.replace(/\/v1$/i, "")\<close>: one \<open>/v1\<close> or \<open>/V1\<close> at the end of the string goes.\<close>

definition strip_v1 :: "string \<Rightarrow> string" where
  "strip_v1 s =
     (if endsWith s ''/v1'' \<or> endsWith s ''/V1'' then take (length s - 3) s else s)"

text \<open>
  \<open>OLLAMA_API_BASE_URL\<close> is imported from \<open>./ollama-stream.js\<close>, which is not part of
  the sources: it is the parameter \<open>dflt\<close>. \<open>!configuredBaseUrl\<close> holds for
  \<open>undefined\<close> and for the empty string.
\<close>

definition resolveOllamaApiBase :: "string \<Rightarrow> string option \<Rightarrow> string" where
  "resolveOllamaApiBase dflt configuredBaseUrl =
     (case configuredBaseUrl of
        None \<Rightarrow> dflt
      | Some url \<Rightarrow>
          if url = [] then dflt
          else (let trimmed = strip_trailing_slashes url in strip_v1 trimmed))"

section \<open>The concurrency limiter (src/utils/limit.ts)\<close>

text \<open>
  A task is the \<open>fn\<close> handed to the scheduling function. Calling \<open>fn()\<close> either throws
  at once (a function that is not \<open>async\<close>) or returns a promise that settles in a later
  turn of the event loop; \<open>throws_sync\<close> says which.
\<close>

datatype 'a task = Task (label: 'a) (throws_sync: bool)

text \<open>
  \<open>queue\<close> and \<open>active\<close> are the two variables of the closure. The other three fields
  observe it: \<open>submitted\<close> lists the tasks in the order they were handed over,
  \<open>started\<close> in the order their \<open>fn\<close> was called, and \<open>inflight\<close> holds the tasks
  whose \<open>fn\<close> was called and whose promise has not settled yet.
\<close>

record 'a limiter =
  queue :: "'a task list"
  active :: int
  inflight :: "'a task list"
  started :: "'a task list"
  submitted :: "'a task list"

definition limit :: "jsnum \<Rightarrow> exn + 'a limiter" where
  "limit mx =
     (if js_lt mx (Fin 1) then Inl (ConfigError ''Concurrency limit must be >= 1'')
      else Inr \<lparr>queue = [], active = 0, inflight = [], started = [], submitted = []\<rparr>)"

text \<open>
  \<open>next()\<close>. \<open>run()\<close> calls \<open>fn()\<close> inside \<open>try\<close>: when it throws at once, \<open>catch\<close> and
  \<open>finally\<close> run before \<open>run()\<close> returns, so \<open>active--\<close> and the nested \<open>next()\<close> happen
  in the same turn. Otherwise the task stays in flight until its promise settles.
\<close>

function next_task :: "jsnum \<Rightarrow> 'a limiter \<Rightarrow> 'a limiter" where
  "next_task mx s =
     (if js_ge (Fin (of_int (active s))) mx \<or> queue s = [] then s
      else
        let t = hd (queue s);
            s1 = s\<lparr>active := active s + 1, queue := tl (queue s), started := started s @ [t]\<rparr>
        in if throws_sync t then next_task mx (s1\<lparr>active := active s1 - 1\<rparr>)
           else s1\<lparr>inflight := inflight s1 @ [t]\<rparr>)"
  by pat_completeness auto
termination
  by (relation "measure (\<lambda>(mx, s). length (queue s))") auto

declare next_task.simps [simp del]

text \<open>The scheduling function \<open>limit(max)\<close> returns: \<open>queue.push(task); next()\<close>.\<close>

definition submit :: "jsnum \<Rightarrow> 'a task \<Rightarrow> 'a limiter \<Rightarrow> 'a limiter" where
  "submit mx t s = next_task mx (s\<lparr>queue := queue s @ [t], submitted := submitted s @ [t]\<rparr>)"

text \<open>
  The continuation of \<open>await fn()\<close> for a task in flight: \<open>resolve\<close> or \<open>reject\<close>, then
  \<open>finally { active--; next() }\<close>. Only a task in flight has such a continuation.
\<close>

definition settle :: "jsnum \<Rightarrow> 'a task \<Rightarrow> 'a limiter \<Rightarrow> 'a limiter" where
  "settle mx t s =
     (if t \<in> set (inflight s)
      then next_task mx (s\<lparr>inflight := remove1 t (inflight s), active := active s - 1\<rparr>)
      else s)"

text \<open>
  JavaScript runs each of these to completion before the next one starts, so a run of the
  limiter is a sequence of them.
\<close>

datatype 'a event = Submit "'a task" | Settle "'a task"

fun step :: "jsnum \<Rightarrow> 'a limiter \<Rightarrow> 'a event \<Rightarrow> 'a limiter" where
  "step mx s (Submit t) = submit mx t s"
| "step mx s (Settle t) = settle mx t s"

definition exec :: "jsnum \<Rightarrow> 'a event list \<Rightarrow> 'a limiter \<Rightarrow> 'a limiter" where
  "exec mx evs s = foldl (step mx) s evs"

section \<open>Model discovery (src/agents/models-config.providers.ts)\<close>

subsection \<open>The backend and what the code does to the outside\<close>

text \<open>
  The two requests the code sends, each with its URL; \<open>PostShow\<close> carries the \<open>name\<close>
  of the request body, \<open>None\<close> when the code passes \<open>undefined\<close>.
\<close>

datatype request = GetTags string | PostShow string "json option"

text \<open>
  What \<open>await ollamaFetch(...)\<close> gives: the promise rejects (connection refused, the
  abort signal of the timeout), or a response with its \<open>ok\<close> flag, its status and its
  body, \<open>None\<close> when \<open>response.json()\<close> rejects because the body is not JSON.
\<close>

datatype http_result = FetchFails | Response bool nat "json option"

datatype log_msg =
    FailedStatus nat
  | NoModelsFound
  | Capping nat nat
  | FailedExn exn

datatype effect =
    Fetch request
  | Warn log_msg
  | Debug log_msg
  | LoadCache
  | SaveCache json

text \<open>
  The constants imported from \<open>./ollama-stream.js\<close>, which is not part of the sources:
  they are the fields of a parameter.
\<close>

record ollama_consts =
  OLLAMA_API_BASE_URL :: string
  OLLAMA_DEFAULT_COST :: json
  OLLAMA_DEFAULT_CONTEXT_WINDOW :: int
  OLLAMA_DEFAULT_MAX_TOKENS :: int
  OLLAMA_SHOW_MAX_MODELS :: nat
  OLLAMA_SHOW_CONCURRENCY :: nat

record process_env =
  VITEST :: "string option"
  NODE_ENV :: "string option"

record ModelDefinitionConfig =
  model_id :: string
  name :: string
  reasoning :: bool
  input :: "string list"
  cost :: json
  contextWindow :: int
  maxTokens :: int

subsection \<open>queryOllamaContextWindow\<close>

text \<open>\<open>typeof value === "number" && Number.isFinite(value)\<close>\<close>

fun finite_number :: "json \<Rightarrow> rat option" where
  "finite_number (JNum (Fin x)) = Some x"
| "finite_number v = None"

text \<open>The \<open>for\<close> loop over \<open>Object.entries(data.model_info)\<close>.\<close>

fun scan_context_length :: "(string \<times> json) list \<Rightarrow> int option" where
  "scan_context_length [] = None"
| "scan_context_length ((key, value) # rest) =
     (case finite_number value of
        Some x \<Rightarrow>
          if endsWith key ''.context_length''
          then (let cw = \<lfloor>x\<rfloor> in if 0 < cw then Some cw else scan_context_length rest)
          else scan_context_length rest
      | None \<Rightarrow> scan_context_length rest)"

text \<open>The decimal numeral of an array index, as \<open>Object.entries\<close> names it.\<close>

function show_nat :: "nat \<Rightarrow> string" where
  "show_nat n =
     (if n < 10 then [char_of (48 + n)]
      else show_nat (n div 10) @ [char_of (48 + n mod 10)])"
  by pat_completeness auto
termination
  by (relation "measure id") auto

declare show_nat.simps [simp del]

text \<open>
  \<open>Object.entries\<close> of a truthy value: the members of an object, the elements of an
  array and the characters of a string under their indices, nothing for a number or a
  boolean.
\<close>

fun Object_entries :: "json \<Rightarrow> (string \<times> json) list" where
  "Object_entries (JObj kvs) = kvs"
| "Object_entries (JArr xs) = zip (map show_nat [0..<length xs]) xs"
| "Object_entries (JStr s) = zip (map show_nat [0..<length s]) (map (\<lambda>c. JStr [c]) s)"
| "Object_entries v = []"

text \<open>The body of the \<open>try\<close> block, with what it throws as \<open>Inl\<close>.\<close>

definition query_try :: "(request \<Rightarrow> http_result) \<Rightarrow> string \<Rightarrow> json option \<Rightarrow> exn + int option" where
  "query_try fetch apiBase modelName =
     (case fetch (PostShow (apiBase @ ''/api/show'') modelName) of
        FetchFails \<Rightarrow> Inl NetworkError
      | Response ok status body \<Rightarrow>
          if \<not> ok then Inr None
          else (case body of
                  None \<Rightarrow> Inl SyntaxError
                | Some data \<Rightarrow>
                    (case get_member data ''model_info'' of
                       Inl e \<Rightarrow> Inl e
                     | Inr None \<Rightarrow> Inr None
                     | Inr (Some model_info) \<Rightarrow>
                         if \<not> truthy model_info then Inr None
                         else Inr (scan_context_length (Object_entries model_info)))))"

text \<open>The function sends its one request and turns every exception into \<open>undefined\<close>.\<close>

definition queryOllamaContextWindow ::
  "(request \<Rightarrow> http_result) \<Rightarrow> string \<Rightarrow> json option \<Rightarrow> effect list \<times> int option" where
  "queryOllamaContextWindow fetch apiBase modelName =
     ([Fetch (PostShow (apiBase @ ''/api/show'') modelName)],
      case query_try fetch apiBase modelName of Inl e \<Rightarrow> None | Inr cw \<Rightarrow> cw)"

subsection \<open>discoverOllamaModels\<close>

text \<open>
  The closure handed to \<open>limitedFetch\<close> for one element of the tag list. \<open>model.name\<close>
  throws on \<open>null\<close>; \<open>modelId.toLowerCase()\<close> throws unless \<open>modelId\<close> is a string, after
  the probe has been sent.
\<close>

definition inspect_model ::
  "ollama_consts \<Rightarrow> (request \<Rightarrow> http_result) \<Rightarrow> string \<Rightarrow> json
     \<Rightarrow> effect list \<times> (exn + ModelDefinitionConfig)" where
  "inspect_model c fetch apiBase model =
     (case get_member model ''name'' of
        Inl e \<Rightarrow> ([], Inl e)
      | Inr modelId \<Rightarrow>
          (let (fx, ctx) = queryOllamaContextWindow fetch apiBase modelId
           in case modelId of
                Some (JStr s) \<Rightarrow>
                  (let isReasoning = (includes_str (toLowerCase s) ''r1'' \<or>
                                      includes_str (toLowerCase s) ''reasoning'')
                   in (fx, Inr \<lparr>model_id = s, name = s, reasoning = isReasoning,
                        input = [''text''], cost = OLLAMA_DEFAULT_COST c,
                        contextWindow =
                          (case ctx of Some cw \<Rightarrow> cw | None \<Rightarrow> OLLAMA_DEFAULT_CONTEXT_WINDOW c),
                        maxTokens = OLLAMA_DEFAULT_MAX_TOKENS c\<rparr>))
              | _ \<Rightarrow> (fx, Inl TypeError)))"

text \<open>
  \<open>await Promise.all(batch.map(model => limitedFetch(...)))\<close>. A batch is no longer than
  the limiter's capacity and the limiter is idle when the batch starts, so every closure
  of the batch is called during \<open>map\<close>, in list order, and sends its probe then; the
  batch fails when one of them does.
\<close>

fun run_batch ::
  "ollama_consts \<Rightarrow> (request \<Rightarrow> http_result) \<Rightarrow> string \<Rightarrow> json list
     \<Rightarrow> effect list \<times> (exn + ModelDefinitionConfig list)" where
  "run_batch c fetch apiBase [] = ([], Inr [])"
| "run_batch c fetch apiBase (model # rest) =
     (let (fx1, r1) = inspect_model c fetch apiBase model;
          (fx2, r2) = run_batch c fetch apiBase rest
      in (fx1 @ fx2,
          case r1 of
            Inl e \<Rightarrow> Inl e
          | Inr d \<Rightarrow> (case r2 of Inl e \<Rightarrow> Inl e | Inr ds \<Rightarrow> Inr (d # ds))))"

text \<open>\<open>xs.slice(i, j)\<close> for \<open>0 \<le> i \<le> j\<close>.\<close>

definition slice :: "'a list \<Rightarrow> nat \<Rightarrow> nat \<Rightarrow> 'a list" where
  "slice xs i j = take (j - i) (drop i xs)"

text \<open>
  The \<open>for\<close> loop over the batches. With a step of \<open>0\<close> the loop would never leave its
  first index: not returning is the value \<open>None\<close>.
\<close>

function discover_batches ::
  "ollama_consts \<Rightarrow> (request \<Rightarrow> http_result) \<Rightarrow> string \<Rightarrow> json list \<Rightarrow> nat
     \<Rightarrow> ModelDefinitionConfig list
     \<Rightarrow> effect list \<times> (exn + ModelDefinitionConfig list) option" where
  "discover_batches c fetch apiBase toInspect i discovered =
     (if i < length toInspect then
        (if OLLAMA_SHOW_CONCURRENCY c = 0 then ([], None)
         else
           (let batch = slice toInspect i (i + OLLAMA_SHOW_CONCURRENCY c);
                (fx, r) = run_batch c fetch apiBase batch
            in case r of
                 Inl e \<Rightarrow> (fx, Some (Inl e))
               | Inr batchDiscovered \<Rightarrow>
                   (let (fx', r') =
                          discover_batches c fetch apiBase toInspect
                            (i + OLLAMA_SHOW_CONCURRENCY c) (discovered @ batchDiscovered)
                    in (fx @ fx', r'))))
      else ([], Some (Inr discovered)))"
  by pat_completeness auto
termination
  by (relation "measure (\<lambda>(c, fetch, apiBase, toInspect, i, discovered). length toInspect - i)")
     auto

declare discover_batches.simps [simp del]

text \<open>\<open>data.models?.length\<close>\<close>

fun optional_length :: "json option \<Rightarrow> json option" where
  "optional_length None = None"
| "optional_length (Some JNull) = None"
| "optional_length (Some (JArr xs)) = Some (JNum (Fin (of_nat (length xs))))"
| "optional_length (Some (JStr s)) = Some (JNum (Fin (of_nat (length s))))"
| "optional_length (Some (JObj kvs)) = map_of kvs ''length''"
| "optional_length (Some v) = None"

text \<open>
  From \<open>data.models.slice\<close> to \<open>return discovered\<close>. An array is inspected. A string has
  \<open>slice\<close> too, but its batch has no \<open>map\<close>; an object has no \<open>slice\<close>.
\<close>

definition inspect_models ::
  "ollama_consts \<Rightarrow> (request \<Rightarrow> http_result) \<Rightarrow> string \<Rightarrow> bool \<Rightarrow> json option
     \<Rightarrow> effect list \<times> (exn + ModelDefinitionConfig list) option" where
  "inspect_models c fetch apiBase quiet models =
     (case models of
        Some (JArr xs) \<Rightarrow>
          (let toInspect = take (OLLAMA_SHOW_MAX_MODELS c) xs;
               fx = (if length toInspect < length xs \<and> \<not> quiet
                     then [Warn (Capping (OLLAMA_SHOW_MAX_MODELS c) (length xs))] else [])
           in case (limit (Fin (of_nat (OLLAMA_SHOW_CONCURRENCY c))) :: exn + json limiter) of
                Inl e \<Rightarrow> (fx, Some (Inl e))
              | Inr limitedFetch \<Rightarrow>
                  (let (fx', r) = discover_batches c fetch apiBase toInspect 0 []
                   in (fx @ fx', r)))
      | Some (JStr s) \<Rightarrow>
          (let toInspect = take (OLLAMA_SHOW_MAX_MODELS c) s;
               fx = (if length toInspect < length s \<and> \<not> quiet
                     then [Warn (Capping (OLLAMA_SHOW_MAX_MODELS c) (length s))] else [])
           in case (limit (Fin (of_nat (OLLAMA_SHOW_CONCURRENCY c))) :: exn + json limiter) of
                Inl e \<Rightarrow> (fx, Some (Inl e))
              | Inr limitedFetch \<Rightarrow>
                  if 0 < length toInspect then (fx, Some (Inl TypeError))
                  else (fx, Some (Inr [])))
      | _ \<Rightarrow> ([], Some (Inl TypeError)))"

text \<open>The body of the \<open>try\<close> block of \<open>discoverOllamaModels\<close>.\<close>

definition discover_try ::
  "ollama_consts \<Rightarrow> (request \<Rightarrow> http_result) \<Rightarrow> string option \<Rightarrow> bool
     \<Rightarrow> effect list \<times> (exn + ModelDefinitionConfig list) option" where
  "discover_try c fetch baseUrl quiet =
     (let apiBase = resolveOllamaApiBase (OLLAMA_API_BASE_URL c) baseUrl;
          tags = GetTags (apiBase @ ''/api/tags'')
      in case fetch tags of
           FetchFails \<Rightarrow> ([Fetch tags], Some (Inl NetworkError))
         | Response ok status body \<Rightarrow>
             if \<not> ok
             then ([Fetch tags] @ (if \<not> quiet then [Warn (FailedStatus status)] else []),
                   Some (Inr []))
             else (case body of
                     None \<Rightarrow> ([Fetch tags], Some (Inl SyntaxError))
                   | Some data \<Rightarrow>
                       (case get_member data ''models'' of
                          Inl e \<Rightarrow> ([Fetch tags], Some (Inl e))
                        | Inr models \<Rightarrow>
                            if \<not> truthy_opt (optional_length models)
                            then ([Fetch tags, Debug NoModelsFound], Some (Inr []))
                            else (let (fx, r) = inspect_models c fetch apiBase quiet models
                                  in (Fetch tags # fx, r)))))"

text \<open>
  The function: nothing is done under a test runner; otherwise the \<open>try\<close> block runs and
  the \<open>catch\<close> turns what it throws into the empty list.
\<close>

definition discoverOllamaModels ::
  "process_env \<Rightarrow> ollama_consts \<Rightarrow> (request \<Rightarrow> http_result) \<Rightarrow> string option \<Rightarrow> bool
     \<Rightarrow> effect list \<times> (exn + ModelDefinitionConfig list) option" where
  "discoverOllamaModels penv c fetch baseUrl quiet =
     (if truthy_str (VITEST penv) \<or> NODE_ENV penv = Some ''test'' then ([], Some (Inr []))
      else (case discover_try c fetch baseUrl quiet of
              (fx, Some (Inl e)) \<Rightarrow>
                (fx @ (if \<not> quiet then [Warn (FailedExn e)] else []), Some (Inr []))
            | (fx, r) \<Rightarrow> (fx, r)))"

subsection \<open>The provider and the cache\<close>

record OllamaProvider =
  baseUrl :: string
  api :: string
  models :: "ModelDefinitionConfig list"

definition buildOllamaProvider ::
  "process_env \<Rightarrow> ollama_consts \<Rightarrow> (request \<Rightarrow> http_result) \<Rightarrow> string option \<Rightarrow> bool
     \<Rightarrow> effect list \<times> (exn + OllamaProvider) option" where
  "buildOllamaProvider penv c fetch configuredBaseUrl quiet =
     (let (fx, r) = discoverOllamaModels penv c fetch configuredBaseUrl quiet
      in (fx,
          case r of
            None \<Rightarrow> None
          | Some (Inl e) \<Rightarrow> Some (Inl e)
          | Some (Inr ms) \<Rightarrow>
              Some (Inr \<lparr>baseUrl = resolveOllamaApiBase (OLLAMA_API_BASE_URL c) configuredBaseUrl,
                         api = ''ollama'', models = ms\<rparr>)))"

text \<open>The objects the code builds, as the values they are once serialised.\<close>

definition model_json :: "ModelDefinitionConfig \<Rightarrow> json" where
  "model_json d =
     JObj [(''id'', JStr (model_id d)), (''name'', JStr (name d)),
           (''reasoning'', JBool (reasoning d)), (''input'', JArr (map JStr (input d))),
           (''cost'', cost d), (''contextWindow'', JNum (Fin (of_int (contextWindow d)))),
           (''maxTokens'', JNum (Fin (of_int (maxTokens d))))]"

text \<open>\<open>{ ...ollamaProvider, apiKey }\<close>\<close>

definition provider_entry :: "OllamaProvider \<Rightarrow> string \<Rightarrow> json" where
  "provider_entry p apiKey =
     JObj [(''baseUrl'', JStr (baseUrl p)), (''api'', JStr (api p)),
           (''models'', JArr (map model_json (models p))), (''apiKey'', JStr apiKey)]"

text \<open>
  The cache file \<open>.openclaw_model_cache.json\<close>: absent, present with a text that cannot
  be read or parsed, or present with a text that \<open>JSON.parse\<close> reads as a value.
  \<open>cache_writable\<close> says whether \<open>writeFileSync\<close> succeeds.
\<close>

datatype cache_file = Absent | Corrupt | Holds json

record filesystem =
  cache :: cache_file
  cache_writable :: bool

definition loadModelCache :: "filesystem \<Rightarrow> json" where
  "loadModelCache fs =
     (case cache fs of Absent \<Rightarrow> JObj [] | Corrupt \<Rightarrow> JObj [] | Holds v \<Rightarrow> v)"

text \<open>
  What \<open>JSON.parse\<close> reads back from \<open>JSON.stringify\<close>: a number that is not finite is
  written as \<open>null\<close>.
\<close>

primrec stringify_parse :: "json \<Rightarrow> json" where
  "stringify_parse JNull = JNull"
| "stringify_parse (JBool b) = JBool b"
| "stringify_parse (JNum n) = (case n of Fin x \<Rightarrow> JNum (Fin x) | _ \<Rightarrow> JNull)"
| "stringify_parse (JStr s) = JStr s"
| "stringify_parse (JArr xs) = JArr (map stringify_parse xs)"
| "stringify_parse (JObj kvs) = JObj (map (map_prod id stringify_parse) kvs)"

definition saveModelCache :: "json \<Rightarrow> filesystem \<Rightarrow> filesystem" where
  "saveModelCache v fs =
     (if cache_writable fs then fs\<lparr>cache := Holds (stringify_parse v)\<rparr> else fs)"

subsection \<open>resolveImplicitProviders\<close>

text \<open>
  \<open>explicitOllama\<close> is \<open>params.explicitProviders?.ollama\<close>: \<open>None\<close> when there is no
  such entry, otherwise its \<open>baseUrl\<close>, a string or absent. \<open>envKey\<close> and \<open>profileKey\<close>
  are what \<open>resolveEnvApiKeyVarName("ollama")\<close> and \<open>resolveApiKeyFromProfiles(...)\<close>
  return; both functions are imported from modules that are not part of the sources.
\<close>

record resolve_params =
  agentDir :: string
  explicitOllama :: "string option option"

definition resolveImplicitProviders ::
  "process_env \<Rightarrow> ollama_consts \<Rightarrow> (request \<Rightarrow> http_result) \<Rightarrow> string option
     \<Rightarrow> string option \<Rightarrow> resolve_params \<Rightarrow> filesystem
     \<Rightarrow> effect list \<times> (exn + (string \<times> json) list) option \<times> filesystem" where
  "resolveImplicitProviders penv c fetch envKey profileKey params fs =
     (let ollamaKey = (case envKey of Some k \<Rightarrow> Some k | None \<Rightarrow> profileKey);
          ollamaBaseUrl = (case explicitOllama params of None \<Rightarrow> None | Some cfg \<Rightarrow> cfg);
          hasExplicitOllamaConfig = (explicitOllama params \<noteq> None);
          (fx, built) = buildOllamaProvider penv c fetch ollamaBaseUrl
                          (\<not> truthy_str ollamaKey \<and> \<not> hasExplicitOllamaConfig)
      in case built of
           None \<Rightarrow> (fx, None, fs)
         | Some (Inl e) \<Rightarrow> (fx, Some (Inl e), fs)
         | Some (Inr ollamaProvider) \<Rightarrow>
             if 0 < length (models ollamaProvider) \<or> truthy_str ollamaKey
             then
               (let entry = provider_entry ollamaProvider
                              (case ollamaKey of Some k \<Rightarrow> k | None \<Rightarrow> ''ollama-local'')
                in (fx @ [SaveCache (JObj [(''ollama'', entry)])],
                    Some (Inr [(''ollama'', entry)]),
                    saveModelCache (JObj [(''ollama'', entry)]) fs))
             else
               (let cached = loadModelCache fs
                in case get_member cached ''ollama'' of
                     Inl e \<Rightarrow> (fx @ [LoadCache], Some (Inl e), fs)
                   | Inr None \<Rightarrow> (fx @ [LoadCache], Some (Inr []), fs)
                   | Inr (Some entry) \<Rightarrow>
                       if truthy entry
                       then (fx @ [LoadCache], Some (Inr [(''ollama'', entry)]), fs)
                       else (fx @ [LoadCache], Some (Inr []), fs)))"

subsection \<open>Vocabulary for statements about discovery\<close>

text \<open>
  The name of an element of the tag list that has the shape \<open>{ name: string }\<close> the
  code expects; the probe sent for a model; whether an effect is a probe.
\<close>

definition tag_name :: "json \<Rightarrow> string option" where
  "tag_name m = (case get_member m ''name'' of Inr (Some (JStr s)) \<Rightarrow> Some s | _ \<Rightarrow> None)"

definition probe_of :: "string \<Rightarrow> string \<Rightarrow> effect" where
  "probe_of apiBase s = Fetch (PostShow (apiBase @ ''/api/show'') (Some (JStr s)))"

fun is_probe :: "effect \<Rightarrow> bool" where
  "is_probe (Fetch (PostShow url n)) = True"
| "is_probe e = False"

subsection \<open>Example values\<close>

definition example_consts :: ollama_consts where
  "example_consts =
     \<lparr>OLLAMA_API_BASE_URL = ''http://127.0.0.1:11434'',
      OLLAMA_DEFAULT_COST = JObj [(''input'', JNum (Fin 0)), (''output'', JNum (Fin 0))],
      OLLAMA_DEFAULT_CONTEXT_WINDOW = 128000,
      OLLAMA_DEFAULT_MAX_TOKENS = 8192,
      OLLAMA_SHOW_MAX_MODELS = 2,
      OLLAMA_SHOW_CONCURRENCY = 1\<rparr>"

definition example_env :: process_env where
  "example_env = \<lparr>VITEST = None, NODE_ENV = Some ''production''\<rparr>"

text \<open>A backend with three models, of which one answers the probe with a context length.\<close>

definition example_tags :: "json list" where
  "example_tags =
     [JObj [(''name'', JStr ''DeepSeek-R1:7b''), (''size'', JNum (Fin 4683075271))],
      JObj [(''name'', JStr ''llama3'')],
      JObj [(''name'', JStr ''qwen2'')]]"

definition example_backend :: "request \<Rightarrow> http_result" where
  "example_backend r =
     (case r of
        GetTags url \<Rightarrow> Response True 200 (Some (JObj [(''models'', JArr example_tags)]))
      | PostShow url n \<Rightarrow>
          if n = Some (JStr ''llama3'')
          then Response True 200
                 (Some (JObj [(''model_info'', JObj [(''llama.context_length'', JNum (Fin 8192))])]))
          else Response False 404 None)"

text \<open>A backend that is not running: every request fails.\<close>

definition unreachable_backend :: "request \<Rightarrow> http_result" where
  "unreachable_backend r = FetchFails"

definition example_params :: resolve_params where
  "example_params = \<lparr>agentDir = ''/home/user/.openclaw/agent'', explicitOllama = None\<rparr>"

text \<open>An entry as a former run saved it.\<close>

definition example_cached_entry :: json where
  "example_cached_entry =
     JObj [(''baseUrl'', JStr ''http://127.0.0.1:11434''), (''api'', JStr ''ollama''),
           (''models'', JArr [JObj [(''id'', JStr ''llama3''), (''name'', JStr ''llama3'')]]),
           (''apiKey'', JStr ''ollama-local'')]"

text \<open>
  A tag list whose second element has a number where the name should be, and a backend
  that lists it and answers no probe.
\<close>

definition malformed_tags :: "json list" where
  "malformed_tags =
     [JObj [(''name'', JStr ''llama3'')],
      JObj [(''name'', JNum (Fin 5))],
      JObj [(''name'', JStr ''qwen2'')]]"

definition malformed_backend :: "request \<Rightarrow> http_result" where
  "malformed_backend r =
     (case r of
        GetTags url \<Rightarrow> Response True 200 (Some (JObj [(''models'', JArr malformed_tags)]))
      | PostShow url n \<Rightarrow> Response False 404 None)"

subsection \<open>Invariants of the limiter\<close>

text \<open>
  The counter equals the number of tasks in flight and does not exceed the capacity, and
  the tasks started so far followed by the queue are the tasks submitted so far.
\<close>

definition slots_ok :: "int \<Rightarrow> 'a limiter \<Rightarrow> bool" where
  "slots_ok m s =
     (active s = int (length (inflight s)) \<and> active s \<le> m \<and>
      submitted s = started s @ queue s)"

definition limiter_inv :: "int \<Rightarrow> 'a limiter \<Rightarrow> bool" where
  "limiter_inv m s = (slots_ok m s \<and> (queue s \<noteq> [] \<longrightarrow> active s = m))"

section \<open>Strings: what the operations compute\<close>

lemma endsWith_iff: "endsWith s t \<longleftrightarrow> (\<exists>u. s = u @ t)"
proof
  assume "endsWith s t"
  then have "s = take (length s - length t) s @ t"
    by (metis append_take_drop_id endsWith_def)
  then show "\<exists>u. s = u @ t" ..
next
  assume "\<exists>u. s = u @ t"
  then show "endsWith s t" by (auto simp: endsWith_def)
qed

lemma startsWith_iff: "startsWith s t \<longleftrightarrow> (\<exists>v. s = t @ v)"
proof
  assume "startsWith s t"
  then have "s = t @ drop (length t) s"
    by (metis append_take_drop_id startsWith_def)
  then show "\<exists>v. s = t @ v" ..
next
  assume "\<exists>v. s = t @ v"
  then show "startsWith s t" by (auto simp: startsWith_def)
qed

lemma includes_str_iff: "includes_str s t \<longleftrightarrow> (\<exists>u v. s = u @ t @ v)"
proof (induction s)
  case Nil
  then show ?case by auto
next
  case (Cons c cs)
  show ?case
  proof
    assume "includes_str (c # cs) t"
    then consider "startsWith (c # cs) t" | "includes_str cs t" by auto
    then show "\<exists>u v. c # cs = u @ t @ v"
    proof cases
      case 1
      then obtain v where "c # cs = [] @ t @ v" by (auto simp: startsWith_iff)
      then show ?thesis by blast
    next
      case 2
      then obtain u v where "cs = u @ t @ v" using Cons.IH by auto
      then have "c # cs = (c # u) @ t @ v" by simp
      then show ?thesis by blast
    qed
  next
    assume "\<exists>u v. c # cs = u @ t @ v"
    then obtain u v where uv: "c # cs = u @ t @ v" by auto
    show "includes_str (c # cs) t"
    proof (cases u)
      case Nil
      then have "startsWith (c # cs) t" using uv by (simp add: startsWith_iff)
      then show ?thesis by simp
    next
      case (Cons a u')
      then have "cs = u' @ t @ v" using uv by simp
      then show ?thesis using Cons.IH by auto
    qed
  qed
qed

lemma strip_trailing_slashes_decomp:
  "\<exists>n. s = strip_trailing_slashes s @ replicate n CHR ''/''"
proof -
  have "rev s = takeWhile (\<lambda>c. c = CHR ''/'') (rev s) @ dropWhile (\<lambda>c. c = CHR ''/'') (rev s)"
    by simp
  then have "rev (rev s) = rev (takeWhile (\<lambda>c. c = CHR ''/'') (rev s) @ dropWhile (\<lambda>c. c = CHR ''/'') (rev s))"
    by simp
  then have "s = strip_trailing_slashes s @ rev (takeWhile (\<lambda>c. c = CHR ''/'') (rev s))"
    unfolding strip_trailing_slashes_def by (simp only: rev_append rev_rev_ident)
  moreover have "\<forall>x \<in> set (rev (takeWhile (\<lambda>c. c = CHR ''/'') (rev s))). x = CHR ''/''"
    by (auto dest: set_takeWhileD)
  then have "rev (takeWhile (\<lambda>c. c = CHR ''/'') (rev s))
      = replicate (length (rev (takeWhile (\<lambda>c. c = CHR ''/'') (rev s)))) CHR ''/''"
    by (simp only: replicate_length_same)
  ultimately show ?thesis by metis
qed

lemma strip_trailing_slashes_no_slash: "\<not> endsWith (strip_trailing_slashes s) ''/''"
proof
  assume "endsWith (strip_trailing_slashes s) ''/''"
  then obtain u where "rev (dropWhile (\<lambda>c. c = CHR ''/'') (rev s)) = u @ ''/''"
    by (auto simp: endsWith_iff strip_trailing_slashes_def)
  then have "rev (rev (dropWhile (\<lambda>c. c = CHR ''/'') (rev s))) = rev (u @ ''/'')"
    by simp
  then have "dropWhile (\<lambda>c. c = CHR ''/'') (rev s) = CHR ''/'' # rev u"
    by simp
  then show False
    by (simp add: dropWhile_eq_Cons_conv)
qed

lemma strip_v1_decomp:
  "(strip_v1 t = t \<and> \<not> endsWith t ''/v1'' \<and> \<not> endsWith t ''/V1'') \<or>
   t = strip_v1 t @ ''/v1'' \<or> t = strip_v1 t @ ''/V1''"
  by (auto simp: strip_v1_def endsWith_iff)

lemma dropWhile_keeps: "c \<in> set xs \<Longrightarrow> \<not> P c \<Longrightarrow> c \<in> set (dropWhile P xs)"
  by (induction xs) auto

lemma trim_nonempty_iff: "trim s \<noteq> [] \<longleftrightarrow> (\<exists>c \<in> set s. \<not> is_ws c)"
proof
  assume "trim s \<noteq> []"
  then have "dropWhile is_ws (rev (dropWhile is_ws s)) \<noteq> []" by (simp add: trim_def)
  then obtain c where "c \<in> set (rev (dropWhile is_ws s))" "\<not> is_ws c"
    by (auto simp: dropWhile_eq_Nil_conv)
  then show "\<exists>c \<in> set s. \<not> is_ws c" by (auto dest: set_dropWhileD)
next
  assume "\<exists>c \<in> set s. \<not> is_ws c"
  then obtain c where c: "c \<in> set s" "\<not> is_ws c" by auto
  then have "c \<in> set (rev (dropWhile is_ws s))" by (simp add: dropWhile_keeps)
  then have "c \<in> set (dropWhile is_ws (rev (dropWhile is_ws s)))" using c(2) by (rule dropWhile_keeps)
  then have "dropWhile is_ws (rev (dropWhile is_ws s)) \<noteq> []"
    by (metis empty_iff empty_set)
  then show "trim s \<noteq> []" by (simp add: trim_def del: dropWhile_eq_Nil_conv)
qed

section \<open>The API base\<close>

text \<open>
  Claim C6, as the code has it. For a non-empty configured URL the result is the URL
  without its trailing slashes and without at most one \<open>/v1\<close> or \<open>/V1\<close> before
  them; everything in front is kept. When no \<open>/v1\<close> was removed the result ends with
  neither a slash nor \<open>/v1\<close>. When one was removed, what stood before it is returned as
  it is. \<open>http://x/v1/\<close> gives \<open>http://x\<close>, and \<open>http://x\<close> gives itself.
\<close>

theorem resolveOllamaApiBase_strips:
  assumes "s \<noteq> []"
  shows "(\<exists>w n. s = resolveOllamaApiBase d (Some s) @ w @ replicate n CHR ''/'' \<and>
            (w = [] \<and> \<not> endsWith (resolveOllamaApiBase d (Some s)) ''/'' \<and>
               \<not> endsWith (resolveOllamaApiBase d (Some s)) ''/v1'' \<and>
               \<not> endsWith (resolveOllamaApiBase d (Some s)) ''/V1''
             \<or> w = ''/v1'' \<or> w = ''/V1'')) \<and>
         resolveOllamaApiBase d (Some ''http://x/v1/'') = ''http://x'' \<and>
         resolveOllamaApiBase d (Some ''http://x'') = ''http://x''"
proof (intro conjI)
  let ?t = "strip_trailing_slashes s"
  have r: "resolveOllamaApiBase d (Some s) = strip_v1 ?t"
    using assms by (simp add: resolveOllamaApiBase_def truthy_str_def)
  obtain n where n: "s = ?t @ replicate n CHR ''/''"
    using strip_trailing_slashes_decomp by blast
  consider (same) "strip_v1 ?t = ?t" "\<not> endsWith ?t ''/v1''" "\<not> endsWith ?t ''/V1''"
    | (lower) "?t = strip_v1 ?t @ ''/v1''" | (upper) "?t = strip_v1 ?t @ ''/V1''"
    using strip_v1_decomp[of ?t] by blast
  then show "\<exists>w n. s = resolveOllamaApiBase d (Some s) @ w @ replicate n CHR ''/'' \<and>
            (w = [] \<and> \<not> endsWith (resolveOllamaApiBase d (Some s)) ''/'' \<and>
               \<not> endsWith (resolveOllamaApiBase d (Some s)) ''/v1'' \<and>
               \<not> endsWith (resolveOllamaApiBase d (Some s)) ''/V1''
             \<or> w = ''/v1'' \<or> w = ''/V1'')"
  proof cases
    case same
    have "s = resolveOllamaApiBase d (Some s) @ [] @ replicate n CHR ''/''"
      using n same(1) r by simp
    moreover have "\<not> endsWith (resolveOllamaApiBase d (Some s)) ''/''"
      using same(1) r strip_trailing_slashes_no_slash by simp
    ultimately show ?thesis using same r by metis
  next
    case lower
    have "s = resolveOllamaApiBase d (Some s) @ ''/v1'' @ replicate n CHR ''/''"
      using n lower r by (metis append.assoc)
    then show ?thesis by blast
  next
    case upper
    have "s = resolveOllamaApiBase d (Some s) @ ''/V1'' @ replicate n CHR ''/''"
      using n upper r by (metis append.assoc)
    then show ?thesis by blast
  qed
next
  show "resolveOllamaApiBase d (Some ''http://x/v1/'') = ''http://x''"
    by (simp add: resolveOllamaApiBase_def truthy_str_def strip_v1_def
        strip_trailing_slashes_def endsWith_def)
next
  show "resolveOllamaApiBase d (Some ''http://x'') = ''http://x''"
    by (simp add: resolveOllamaApiBase_def truthy_str_def strip_v1_def
        strip_trailing_slashes_def endsWith_def)
qed

text \<open>The theorem at \<open>http://x/api/V1//\<close>.\<close>

theorem resolveOllamaApiBase_strips_witness:
  "''http://x/api/V1//'' \<noteq> [] \<and>
   resolveOllamaApiBase ''http://localhost:11434'' (Some ''http://x/api/V1//'') = ''http://x/api'' \<and>
   (\<exists>w n. ''http://x/api/V1//'' = ''http://x/api'' @ w @ replicate n CHR ''/'')"
proof -
  have e: "resolveOllamaApiBase ''http://localhost:11434'' (Some ''http://x/api/V1//'') = ''http://x/api''"
    by (simp add: resolveOllamaApiBase_def truthy_str_def strip_v1_def
        strip_trailing_slashes_def endsWith_def)
  have "''http://x/api/V1//'' \<noteq> []" by simp
  from resolveOllamaApiBase_strips[OF this, of "''http://localhost:11434''"] e
  show ?thesis by auto
qed

text \<open>
  The result can end with \<open>/v1\<close>: only one such suffix is removed.
\<close>

theorem resolveOllamaApiBase_v1_counterexample:
  "''http://x/v1/v1'' \<noteq> [] \<and>
   resolveOllamaApiBase ''http://localhost:11434'' (Some ''http://x/v1/v1'') = ''http://x/v1'' \<and>
   endsWith (resolveOllamaApiBase ''http://localhost:11434'' (Some ''http://x/v1/v1'')) ''/v1''"
  by (simp add: resolveOllamaApiBase_def truthy_str_def strip_v1_def
        strip_trailing_slashes_def endsWith_def)

section \<open>The model filter\<close>

text \<open>
  Claim C9, as the code has it. \<open>isModernModelRef\<close> accepts a reference exactly when
  its provider and its id are both present and each has a character that is not white
  space; it rejects every other reference.
\<close>

theorem isModernModelRef_iff:
  "isModernModelRef r \<longleftrightarrow>
     (\<exists>p i. provider r = Some p \<and> ref_id r = Some i \<and>
            (\<exists>c \<in> set p. \<not> is_ws c) \<and> (\<exists>c \<in> set i. \<not> is_ws c))"
  by (cases "provider r"; cases "ref_id r")
     (simp_all add: isModernModelRef_def truthy_str_def trim_nonempty_iff)

text \<open>One reference that is accepted and one with a blank id.\<close>

theorem isModernModelRef_iff_witness:
  "isModernModelRef \<lparr>provider = Some ''ollama'', ref_id = Some '' llama3:8b ''\<rparr> \<and>
   \<not> isModernModelRef \<lparr>provider = Some ''ollama'', ref_id = Some ''  ''\<rparr>"
proof -
  have "\<exists>c \<in> set ''ollama''. \<not> is_ws c" by (simp add: is_ws_def)
  moreover have "\<exists>c \<in> set '' llama3:8b ''. \<not> is_ws c" by (simp add: is_ws_def)
  ultimately have "isModernModelRef \<lparr>provider = Some ''ollama'', ref_id = Some '' llama3:8b ''\<rparr>"
    using isModernModelRef_iff[of "\<lparr>provider = Some ''ollama'', ref_id = Some '' llama3:8b ''\<rparr>"]
    by simp
  moreover have "\<not> isModernModelRef \<lparr>provider = Some ''ollama'', ref_id = Some ''  ''\<rparr>"
    using isModernModelRef_iff[of "\<lparr>provider = Some ''ollama'', ref_id = Some ''  ''\<rparr>"]
    by (simp add: is_ws_def)
  ultimately show ?thesis by simp
qed

text \<open>The filter is not a no-op: a reference without provider is rejected.\<close>

theorem isModernModelRef_rejects_counterexample:
  "isModernModelRef \<lparr>provider = None, ref_id = Some ''llama3:8b''\<rparr> = False"
  by (simp add: isModernModelRef_def truthy_str_def)

section \<open>The limiter\<close>

text \<open>
  Claim C3. \<open>limit(max)\<close> throws its error when \<open>max < 1\<close> and returns the idle
  limiter when \<open>max >= 1\<close>.
\<close>

theorem limit_construction:
  "(js_lt mx (Fin 1) \<longrightarrow>
      (limit mx :: exn + 'a limiter) = Inl (ConfigError ''Concurrency limit must be >= 1'')) \<and>
   (js_ge mx (Fin 1) \<longrightarrow>
      (limit mx :: exn + 'a limiter) =
        Inr \<lparr>queue = [], active = 0, inflight = [], started = [], submitted = []\<rparr>)"
  by (simp add: limit_def js_ge_def)

text \<open>The theorem at \<open>0\<close> and at \<open>8\<close>.\<close>

theorem limit_construction_witness:
  "js_lt (Fin 0) (Fin 1) \<and>
   (limit (Fin 0) :: exn + nat limiter) = Inl (ConfigError ''Concurrency limit must be >= 1'') \<and>
   js_ge (Fin 8) (Fin 1) \<and>
   (limit (Fin 8) :: exn + nat limiter) =
      Inr \<lparr>queue = [], active = 0, inflight = [], started = [], submitted = []\<rparr>"
proof -
  have a: "js_lt (Fin 0) (Fin 1)" by simp
  have b: "js_ge (Fin 8) (Fin 1)" by (simp add: js_ge_def)
  show ?thesis
    using a b limit_construction[of "Fin 0", where 'a = nat]
      limit_construction[of "Fin 8", where 'a = nat]
    by blast
qed

lemma js_ge_int: "js_ge (Fin (of_int a)) (Fin (of_int m)) = (m \<le> a)"
  by (auto simp: js_ge_def)

lemma next_task_stop:
  "js_ge (Fin (of_int (active s))) mx \<or> queue s = [] \<Longrightarrow> next_task mx s = s"
  by (subst next_task.simps) simp

lemma next_task_throw:
  "\<not> js_ge (Fin (of_int (active s))) mx \<Longrightarrow> queue s = t # q \<Longrightarrow> throws_sync t \<Longrightarrow>
   next_task mx s = next_task mx (s\<lparr>queue := q, started := started s @ [t]\<rparr>)"
  by (subst next_task.simps) (simp add: Let_def)

lemma next_task_start:
  "\<not> js_ge (Fin (of_int (active s))) mx \<Longrightarrow> queue s = t # q \<Longrightarrow> \<not> throws_sync t \<Longrightarrow>
   next_task mx s =
     s\<lparr>active := active s + 1, queue := q, started := started s @ [t],
       inflight := inflight s @ [t]\<rparr>"
  by (subst next_task.simps) (simp add: Let_def)

lemma next_task_inv:
  "slots_ok m s \<Longrightarrow> length (queue s) \<le> 1 \<or> m \<le> active s + 1 \<Longrightarrow>
   limiter_inv m (next_task (Fin (of_int m)) s)"
proof (induction "queue s" arbitrary: s)
  case Nil
  then show ?case by (simp add: next_task_stop limiter_inv_def)
next
  case (Cons t q)
  note q = \<open>t # q = queue s\<close>[symmetric]
  show ?case
  proof (cases "m \<le> active s")
    case True
    then have "next_task (Fin (of_int m)) s = s" by (simp add: next_task_stop js_ge_int)
    then show ?thesis using Cons.prems True by (auto simp: limiter_inv_def slots_ok_def)
  next
    case False
    then have nge: "\<not> js_ge (Fin (of_int (active s))) (Fin (of_int m))" by (simp add: js_ge_int)
    show ?thesis
    proof (cases "throws_sync t")
      case True
      let ?s' = "s\<lparr>queue := q, started := started s @ [t]\<rparr>"
      have "slots_ok m ?s'" using Cons.prems q by (simp add: slots_ok_def)
      moreover have "q = queue ?s'" by simp
      moreover have "length (queue ?s') \<le> 1 \<or> m \<le> active ?s' + 1"
        using Cons.prems(2) q by auto
      ultimately have "limiter_inv m (next_task (Fin (of_int m)) ?s')"
        using Cons.hyps(1)[of ?s'] by blast
      then show ?thesis by (simp add: next_task_throw[OF nge q True])
    next
      case nt: False
      show ?thesis using Cons.prems False q
        by (auto simp: next_task_start[OF nge q nt] limiter_inv_def slots_ok_def)
    qed
  qed
qed

lemma submit_inv: "limiter_inv m s \<Longrightarrow> limiter_inv m (submit (Fin (of_int m)) t s)"
  unfolding submit_def by (rule next_task_inv) (auto simp: limiter_inv_def slots_ok_def)

lemma length_remove1_mem: "t \<in> set xs \<Longrightarrow> int (length (remove1 t xs)) = int (length xs) - 1"
  using length_pos_if_in_set[of t xs] by (simp add: length_remove1 of_nat_diff Suc_leI)

lemma settle_inv:
  assumes "limiter_inv m s"
  shows "limiter_inv m (settle (Fin (of_int m)) t s)"
proof (cases "t \<in> set (inflight s)")
  case True
  let ?s' = "s\<lparr>inflight := remove1 t (inflight s), active := active s - 1\<rparr>"
  have "slots_ok m ?s'"
    using assms True by (simp add: limiter_inv_def slots_ok_def length_remove1_mem)
  moreover have "length (queue ?s') \<le> 1 \<or> m \<le> active ?s' + 1"
    using assms by (cases "queue s") (auto simp: limiter_inv_def)
  ultimately show ?thesis using True by (simp add: settle_def next_task_inv)
next
  case False
  then show ?thesis using assms by (simp add: settle_def)
qed

lemma step_inv: "limiter_inv m s \<Longrightarrow> limiter_inv m (step (Fin (of_int m)) s e)"
  by (cases e) (simp_all add: submit_inv settle_inv)

lemma exec_inv: "limiter_inv m s \<Longrightarrow> limiter_inv m (exec (Fin (of_int m)) evs s)"
  unfolding exec_def by (induction evs arbitrary: s) (simp_all add: step_inv)

lemma limit_ok_inv: "1 \<le> m \<Longrightarrow> limit (Fin (of_int m)) = Inr s \<Longrightarrow> limiter_inv m s"
  by (auto simp: limit_def limiter_inv_def slots_ok_def split: if_splits)

text \<open>
  Discovery hands the limiter batches that are no longer than its capacity, of closures
  that are \<open>async\<close> and so never throw at once, and awaits each batch before the
  next. Such a batch, submitted to a limiter with enough free slots, is started whole
  and in order during the submissions; nothing is queued.
\<close>

lemma submit_free_slot:
  assumes "queue s = []" and "active s < m" and "\<not> throws_sync t"
  shows "submit (Fin (of_int m)) t s =
           s\<lparr>queue := [], submitted := submitted s @ [t], active := active s + 1,
             started := started s @ [t], inflight := inflight s @ [t]\<rparr>"
proof -
  let ?s = "s\<lparr>queue := queue s @ [t], submitted := submitted s @ [t]\<rparr>"
  have "\<not> js_ge (Fin (of_int (active ?s))) (Fin (of_int m))"
    using assms(2) by (simp add: js_ge_int)
  moreover have "queue ?s = t # []" using assms(1) by simp
  ultimately have "next_task (Fin (of_int m)) ?s =
      ?s\<lparr>active := active ?s + 1, queue := [], started := started ?s @ [t],
         inflight := inflight ?s @ [t]\<rparr>"
    using assms(3) by (rule next_task_start)
  then show ?thesis by (simp add: submit_def)
qed

lemma batch_starts_at_once:
  assumes "queue s = []" and "active s + int (length ts) \<le> m"
    and "\<forall>t \<in> set ts. \<not> throws_sync t"
  shows "exec (Fin (of_int m)) (map Submit ts) s =
           s\<lparr>queue := [], submitted := submitted s @ ts, active := active s + int (length ts),
             started := started s @ ts, inflight := inflight s @ ts\<rparr>"
  using assms
proof (induction ts arbitrary: s)
  case Nil
  then show ?case by (simp add: exec_def)
next
  case (Cons t ts)
  let ?s1 = "s\<lparr>queue := [], submitted := submitted s @ [t], active := active s + 1,
             started := started s @ [t], inflight := inflight s @ [t]\<rparr>"
  have s1: "submit (Fin (of_int m)) t s = ?s1"
    using Cons.prems by (intro submit_free_slot) auto
  have "exec (Fin (of_int m)) (map Submit ts) ?s1 =
          ?s1\<lparr>queue := [], submitted := submitted ?s1 @ ts,
              active := active ?s1 + int (length ts),
              started := started ?s1 @ ts, inflight := inflight ?s1 @ ts\<rparr>"
    using Cons.prems by (intro Cons.IH) auto
  then show ?case using s1 by (simp add: exec_def)
qed

text \<open>
  Claim C2, as the code has it. For every integer \<open>max \<ge> 1\<close> and after any sequence of
  submissions and completions, at most \<open>max\<close> tasks are in flight, the tasks started so
  far are an initial segment of the tasks submitted (the rest is the queue, in order), and
  a task waits in the queue only while \<open>max\<close> tasks are in flight.
\<close>

theorem limit_bounded_fifo:
  assumes "1 \<le> m" and "limit (Fin (of_int m)) = Inr s0"
  shows "int (length (inflight (exec (Fin (of_int m)) evs s0))) \<le> m \<and>
         submitted (exec (Fin (of_int m)) evs s0)
           = started (exec (Fin (of_int m)) evs s0) @ queue (exec (Fin (of_int m)) evs s0) \<and>
         (queue (exec (Fin (of_int m)) evs s0) \<noteq> [] \<longrightarrow>
            int (length (inflight (exec (Fin (of_int m)) evs s0))) = m)"
  using exec_inv[OF limit_ok_inv[OF assms], of evs]
  by (auto simp: limiter_inv_def slots_ok_def)

text \<open>
  Capacity 2, four submissions of which the second throws at once, then the first
  completes: the fourth task has left the queue and two tasks are in flight.
\<close>

theorem limit_bounded_fifo_witness:
  "(1::int) \<le> 2 \<and>
   limit (Fin 2) = Inr \<lparr>queue = [], active = 0, inflight = [], started = [],
                         submitted = ([] :: nat task list)\<rparr> \<and>
   int (length (inflight (exec (Fin 2)
          [Submit (Task 1 False), Submit (Task 2 True), Submit (Task 3 False),
           Submit (Task 4 False), Settle (Task 1 False)]
          \<lparr>queue = [], active = 0, inflight = [], started = [],
            submitted = ([] :: nat task list)\<rparr>))) \<le> 2 \<and>
   started (exec (Fin 2)
          [Submit (Task 1 False), Submit (Task 2 True), Submit (Task 3 False),
           Submit (Task 4 False), Settle (Task 1 False)]
          \<lparr>queue = [], active = 0, inflight = [], started = [],
            submitted = ([] :: nat task list)\<rparr>)
     = [Task 1 False, Task 2 True, Task 3 False, Task 4 False]"
proof -
  let ?s0 = "\<lparr>queue = [], active = 0, inflight = [], started = [],
              submitted = ([] :: nat task list)\<rparr>"
  let ?evs = "[Submit (Task 1 False), Submit (Task 2 True), Submit (Task 3 False),
               Submit (Task 4 False), Settle (Task (1::nat) False)]"
  have h1: "(1::int) \<le> 2" by simp
  have h2: "limit (Fin (of_int 2)) = Inr ?s0" by (simp add: limit_def)
  have run: "started (exec (Fin 2) ?evs ?s0)
      = [Task 1 False, Task 2 True, Task 3 False, Task 4 False]"
    by (simp add: exec_def submit_def settle_def js_ge_def next_task.simps Let_def)
  from limit_bounded_fifo[OF h1 h2, of ?evs] h2 run show ?thesis by simp
qed

text \<open>
  With \<open>max = 1.5\<close> the limiter is built and starts two tasks, since \<open>1 >= 1.5\<close> is
  false: more than \<open>max\<close> tasks are in flight.
\<close>

theorem limit_fractional_counterexample:
  "js_ge (Fin (3 / 2)) (Fin 1) \<and>
   limit (Fin (3 / 2)) = Inr \<lparr>queue = [], active = 0, inflight = [], started = [],
                               submitted = ([] :: nat task list)\<rparr> \<and>
   inflight (exec (Fin (3 / 2)) [Submit (Task 1 False), Submit (Task 2 False)]
               \<lparr>queue = [], active = 0, inflight = [], started = [],
                 submitted = ([] :: nat task list)\<rparr>)
     = [Task 1 False, Task 2 False] \<and>
   js_lt (Fin (3 / 2)) (Fin (of_nat (length [Task (1::nat) False, Task 2 False])))"
  by (simp add: limit_def exec_def submit_def js_ge_def next_task.simps Let_def)

section \<open>The context window probe\<close>

lemma scan_context_length_find:
  "scan_context_length kvs =
     (case find (\<lambda>(k, v). endsWith k ''.context_length'' \<and> (case finite_number v of Some x \<Rightarrow> 1 \<le> x | None \<Rightarrow> False)) kvs of
        None \<Rightarrow> None
      | Some (k, v) \<Rightarrow> map_option floor (finite_number v))"
proof (induction kvs)
  case Nil
  then show ?case by simp
next
  case (Cons kv kvs)
  obtain k v where kv: "kv = (k, v)" by (cases kv)
  show ?case
  proof (cases "finite_number v")
    case None
    then show ?thesis using Cons.IH kv by simp
  next
    case (Some x)
    then show ?thesis using Cons.IH kv by (simp add: Let_def zero_less_floor)
  qed
qed

text \<open>
  Claim C4, as the code has it. For a probe that is answered with a metadata object, the
  context window is the floor of the first entry, in the object's order, whose key ends
  in \<open>.context_length\<close> and whose value is a finite number of at least 1; when there
  is no such entry, and so when no key has the suffix, there is no context window.
\<close>

theorem queryOllamaContextWindow_first_match:
  assumes "fetch (PostShow (apiBase @ ''/api/show'') modelName) = Response True status (Some data)"
    and "get_member data ''model_info'' = Inr (Some (JObj info))"
  shows "snd (queryOllamaContextWindow fetch apiBase modelName) =
           (case find (\<lambda>(k, v). endsWith k ''.context_length'' \<and>
                                (case finite_number v of Some x \<Rightarrow> 1 \<le> x | None \<Rightarrow> False)) info of
              None \<Rightarrow> None
            | Some (k, v) \<Rightarrow> map_option floor (finite_number v)) \<and>
         ((\<forall>(k, v) \<in> set info. \<not> endsWith k ''.context_length'') \<longrightarrow>
            snd (queryOllamaContextWindow fetch apiBase modelName) = None)"
proof -
  have q: "snd (queryOllamaContextWindow fetch apiBase modelName) = scan_context_length info"
    using assms by (simp add: queryOllamaContextWindow_def query_try_def)
  have "find (\<lambda>(k, v). endsWith k ''.context_length'' \<and> (case finite_number v of Some x \<Rightarrow> 1 \<le> x | None \<Rightarrow> False)) info = None"
    if "\<forall>(k, v) \<in> set info. \<not> endsWith k ''.context_length''"
    using that by (auto simp: find_None_iff)
  then show ?thesis unfolding q scan_context_length_find by simp
qed

text \<open>
  A metadata object whose first matching key holds \<open>0.5\<close>, which is passed over, and
  whose second holds \<open>4096.5\<close>; and one without any matching key.
\<close>

theorem queryOllamaContextWindow_first_match_witness:
  "snd (queryOllamaContextWindow
     (\<lambda>r. Response True 200 (Some (JObj [(''model_info'',
        JObj [(''general.architecture'', JStr ''llama''),
              (''a.context_length'', JNum (Fin (1 / 2))),
              (''llama.context_length'', JNum (Fin (8193 / 2))),
              (''b.context_length'', JNum (Fin 7))])])))
     ''http://x'' (Some (JStr ''llama3''))) = Some 4096 \<and>
   snd (queryOllamaContextWindow
     (\<lambda>r. Response True 200 (Some (JObj [(''model_info'',
        JObj [(''general.architecture'', JStr ''llama''),
              (''general.parameter_count'', JNum (Fin 8030261248))])])))
     ''http://x'' (Some (JStr ''llama3''))) = None"
proof -
  let ?info = "[(''general.architecture'', JStr ''llama''),
              (''a.context_length'', JNum (Fin (1 / 2))),
              (''llama.context_length'', JNum (Fin (8193 / 2))),
              (''b.context_length'', JNum (Fin 7))]"
  let ?data = "JObj [(''model_info'', JObj ?info)]"
  let ?fetch = "\<lambda>r::request. Response True 200 (Some ?data)"
  have h1: "?fetch (PostShow (''http://x'' @ ''/api/show'') (Some (JStr ''llama3'')))
              = Response True 200 (Some ?data)" by simp
  have h2: "get_member ?data ''model_info'' = Inr (Some (JObj ?info))" by simp
  let ?info' = "[(''general.architecture'', JStr ''llama''),
                 (''general.parameter_count'', JNum (Fin 8030261248))]"
  let ?data' = "JObj [(''model_info'', JObj ?info')]"
  let ?fetch' = "\<lambda>r::request. Response True 200 (Some ?data')"
  have h1': "?fetch' (PostShow (''http://x'' @ ''/api/show'') (Some (JStr ''llama3'')))
              = Response True 200 (Some ?data')" by simp
  have h2': "get_member ?data' ''model_info'' = Inr (Some (JObj ?info'))" by simp
  have n: "\<forall>(k, v) \<in> set ?info'. \<not> endsWith k ''.context_length''"
    by (simp add: endsWith_def)
  from queryOllamaContextWindow_first_match[of ?fetch "''http://x''" "Some (JStr ''llama3'')"
      200 ?data ?info, OF h1 h2]
  have a: "snd (queryOllamaContextWindow ?fetch ''http://x'' (Some (JStr ''llama3''))) = Some 4096"
    by (simp add: endsWith_def floor_unique)
  from queryOllamaContextWindow_first_match[of ?fetch' "''http://x''" "Some (JStr ''llama3'')"
      200 ?data' ?info', OF h1' h2'] n
  have b: "snd (queryOllamaContextWindow ?fetch' ''http://x'' (Some (JStr ''llama3''))) = None"
    by blast
  from a b show ?thesis by blast
qed

text \<open>
  A key with the suffix and the finite positive value \<open>0.5\<close>: its floor is \<open>0\<close>, the
  guard \<open>cw > 0\<close> rejects it, and the probe yields no context window.
\<close>

theorem queryOllamaContextWindow_fraction_counterexample:
  "endsWith ''llama.context_length'' ''.context_length'' \<and>
   finite_number (JNum (Fin (1 / 2))) = Some (1 / 2) \<and> (0::rat) < 1 / 2 \<and>
   snd (queryOllamaContextWindow
     (\<lambda>r. Response True 200 (Some (JObj [(''model_info'',
        JObj [(''llama.context_length'', JNum (Fin (1 / 2)))])])))
     ''http://x'' (Some (JStr ''llama3''))) = None"
  by (simp add: queryOllamaContextWindow_def query_try_def endsWith_def)

section \<open>Discovery\<close>

lemma tag_name_SomeD:
  "tag_name m = Some s \<Longrightarrow> get_member m ''name'' = Inr (Some (JStr s))"
  by (auto simp: tag_name_def split: sum.splits option.splits json.splits)

lemma inspect_model_ok:
  assumes "tag_name m = Some s"
  shows "\<exists>d. inspect_model c fetch apiBase m = ([probe_of apiBase s], Inr d) \<and> model_id d = s"
  using tag_name_SomeD[OF assms]
  by (simp add: inspect_model_def queryOllamaContextWindow_def probe_of_def)

lemma inspect_model_InrD:
  assumes "inspect_model c fetch apiBase m = (fx, Inr d)"
  shows "reasoning d = (includes_str (toLowerCase (model_id d)) ''r1'' \<or>
                        includes_str (toLowerCase (model_id d)) ''reasoning'')"
  using assms
  by (auto simp: inspect_model_def queryOllamaContextWindow_def Let_def
      split: sum.splits option.splits json.splits)

lemma run_batch_all:
  assumes "run_batch c fetch apiBase ms = (fx, Inr ds)"
    and "\<And>m fx d. inspect_model c fetch apiBase m = (fx, Inr d) \<Longrightarrow> P d"
  shows "\<forall>d \<in> set ds. P d"
  using assms(1)
proof (induction ms arbitrary: fx ds)
  case Nil
  then show ?case by simp
next
  case (Cons m ms)
  obtain fx1 r1 where i: "inspect_model c fetch apiBase m = (fx1, r1)" by (cases "inspect_model c fetch apiBase m")
  obtain fx2 r2 where r: "run_batch c fetch apiBase ms = (fx2, r2)" by (cases "run_batch c fetch apiBase ms")
  from Cons.prems i r obtain d ds' where "r1 = Inr d" "r2 = Inr ds'" "ds = d # ds'"
    by (auto split: sum.splits)
  then show ?case using Cons.IH[of fx2 ds'] r i assms(2) by auto
qed

lemma discover_batches_done:
  "\<not> i < length xs \<Longrightarrow> discover_batches c fetch apiBase xs i acc = ([], Some (Inr acc))"
  by (subst discover_batches.simps) simp

lemma discover_batches_hang:
  "i < length xs \<Longrightarrow> OLLAMA_SHOW_CONCURRENCY c = 0 \<Longrightarrow>
   discover_batches c fetch apiBase xs i acc = ([], None)"
  by (subst discover_batches.simps) simp

lemma discover_batches_fail:
  "i < length xs \<Longrightarrow> OLLAMA_SHOW_CONCURRENCY c \<noteq> 0 \<Longrightarrow>
   run_batch c fetch apiBase (slice xs i (i + OLLAMA_SHOW_CONCURRENCY c)) = (fx, Inl e) \<Longrightarrow>
   discover_batches c fetch apiBase xs i acc = (fx, Some (Inl e))"
  by (subst discover_batches.simps) simp

lemma discover_batches_step:
  "i < length xs \<Longrightarrow> OLLAMA_SHOW_CONCURRENCY c \<noteq> 0 \<Longrightarrow>
   run_batch c fetch apiBase (slice xs i (i + OLLAMA_SHOW_CONCURRENCY c)) = (fx, Inr bd) \<Longrightarrow>
   discover_batches c fetch apiBase xs (i + OLLAMA_SHOW_CONCURRENCY c) (acc @ bd) = (fx', r') \<Longrightarrow>
   discover_batches c fetch apiBase xs i acc = (fx @ fx', r')"
  by (subst discover_batches.simps) simp

lemma discover_batches_all:
  assumes "discover_batches c fetch apiBase xs i acc = (fx, Some (Inr ds))"
    and "\<forall>d \<in> set acc. P d"
    and "\<And>m fx d. inspect_model c fetch apiBase m = (fx, Inr d) \<Longrightarrow> P d"
  shows "\<forall>d \<in> set ds. P d"
  using assms(1,2)
proof (induction "length xs - i" arbitrary: i acc fx rule: less_induct)
  case less
  show ?case
  proof (cases "i < length xs")
    case False
    then show ?thesis using less.prems by (simp add: discover_batches_done)
  next
    case True
    let ?K = "OLLAMA_SHOW_CONCURRENCY c"
    have K: "?K \<noteq> 0"
    proof
      assume "?K = 0"
      from discover_batches_hang[OF True this, of fetch apiBase acc] less.prems(1)
      show False by simp
    qed
    obtain fxb rb where b: "run_batch c fetch apiBase (slice xs i (i + ?K)) = (fxb, rb)"
      by (cases "run_batch c fetch apiBase (slice xs i (i + ?K))")
    show ?thesis
    proof (cases rb)
      case (Inl e)
      then show ?thesis using less.prems(1) discover_batches_fail[OF True K b[unfolded Inl]] by simp
    next
      case (Inr bd)
      obtain fx' r' where rec:
        "discover_batches c fetch apiBase xs (i + ?K) (acc @ bd) = (fx', r')"
        by (cases "discover_batches c fetch apiBase xs (i + ?K) (acc @ bd)")
      have r': "r' = Some (Inr ds)"
        using less.prems(1) discover_batches_step[OF True K b[unfolded Inr] rec] by simp
      have "\<forall>d \<in> set bd. P d" using run_batch_all[OF b[unfolded Inr]] assms(3) by blast
      then have "\<forall>d \<in> set (acc @ bd). P d" using less.prems(2) by auto
      moreover have "length xs - (i + ?K) < length xs - i" using True K by simp
      ultimately show ?thesis using less.hyps rec r' by blast
    qed
  qed
qed

lemma limit_of_nat:
  "(limit (Fin (of_nat k)) :: exn + 'a limiter) =
     (if k = 0 then Inl (ConfigError ''Concurrency limit must be >= 1'')
      else Inr \<lparr>queue = [], active = 0, inflight = [], started = [], submitted = []\<rparr>)"
  by (simp add: limit_def)

lemma inspect_models_cases:
  assumes "inspect_models c fetch apiBase quiet mods = (fx, r)"
  shows "(\<exists>e. r = Some (Inl e)) \<or> r = Some (Inr []) \<or>
         (OLLAMA_SHOW_CONCURRENCY c \<noteq> 0 \<and>
          (\<exists>xs fx'. mods = Some (JArr xs) \<and>
             discover_batches c fetch apiBase (take (OLLAMA_SHOW_MAX_MODELS c) xs) 0 [] = (fx', r)))"
proof (cases mods)
  case None
  then show ?thesis using assms by (auto simp: inspect_models_def)
next
  case (Some v)
  show ?thesis
  proof (cases v)
    case (JArr xs)
    show ?thesis
    proof (cases "OLLAMA_SHOW_CONCURRENCY c = 0")
      case True
      then show ?thesis using assms Some JArr
        by (auto simp: inspect_models_def limit_of_nat limit_def Let_def)
    next
      case False
      obtain fx' r' where d:
        "discover_batches c fetch apiBase (take (OLLAMA_SHOW_MAX_MODELS c) xs) 0 [] = (fx', r')"
        by (cases "discover_batches c fetch apiBase (take (OLLAMA_SHOW_MAX_MODELS c) xs) 0 []")
      then have "r' = r" using assms Some JArr False
        by (auto simp: inspect_models_def limit_of_nat limit_def Let_def)
      then show ?thesis using d False Some JArr by blast
    qed
  next
    case (JStr s)
    then show ?thesis using assms Some
      by (cases "OLLAMA_SHOW_CONCURRENCY c = 0"; cases "take (OLLAMA_SHOW_MAX_MODELS c) s = []")
         (auto simp add: inspect_models_def limit_of_nat limit_def Let_def)
  next
    case JNull
    then show ?thesis using assms Some by (auto simp: inspect_models_def)
  next
    case (JBool b)
    then show ?thesis using assms Some by (auto simp: inspect_models_def)
  next
    case (JNum n)
    then show ?thesis using assms Some by (auto simp: inspect_models_def)
  next
    case (JObj kvs)
    then show ?thesis using assms Some by (auto simp: inspect_models_def)
  qed
qed

lemma toLowerCase_append_iff:
  "(\<exists>u v. toLowerCase s = u @ t @ v) \<longleftrightarrow>
   (\<exists>u w v. s = u @ w @ v \<and> toLowerCase w = t)"
proof
  assume "\<exists>u v. toLowerCase s = u @ t @ v"
  then obtain u v where "map lower_char s = u @ (t @ v)" by (auto simp: toLowerCase_def)
  then obtain us r where s: "s = us @ r" and r: "map lower_char r = t @ v"
    by (metis map_eq_append_conv)
  from r obtain ws vs where "r = ws @ vs" "map lower_char ws = t"
    by (metis map_eq_append_conv)
  with s show "\<exists>u w v. s = u @ w @ v \<and> toLowerCase w = t"
    by (auto simp: toLowerCase_def)
next
  assume "\<exists>u w v. s = u @ w @ v \<and> toLowerCase w = t"
  then obtain u w v where "s = u @ w @ v" "toLowerCase w = t" by auto
  then have "toLowerCase s = toLowerCase u @ t @ toLowerCase v"
    by (simp add: toLowerCase_def)
  then show "\<exists>u v. toLowerCase s = u @ t @ v" by blast
qed

lemma discover_try_cases:
  assumes "discover_try c fetch configured quiet = (fx, r)"
  shows "(\<exists>e. r = Some (Inl e)) \<or> r = Some (Inr []) \<or>
         (\<exists>mods fx'. inspect_models c fetch
             (resolveOllamaApiBase (OLLAMA_API_BASE_URL c) configured) quiet mods = (fx', r))"
proof -
  let ?apiBase = "resolveOllamaApiBase (OLLAMA_API_BASE_URL c) configured"
  let ?tags = "GetTags (?apiBase @ ''/api/tags'')"
  show ?thesis
  proof (cases "fetch ?tags")
    case FetchFails
    then show ?thesis using assms by (auto simp: discover_try_def)
  next
    case (Response ok status body)
    show ?thesis
    proof (cases "ok")
      case False
      then show ?thesis using assms Response by (auto simp: discover_try_def)
    next
      case True
      show ?thesis
      proof (cases body)
        case None
        then show ?thesis using assms Response True by (auto simp: discover_try_def)
      next
        case (Some data)
        show ?thesis
        proof (cases "get_member data ''models''")
          case (Inl e)
          then show ?thesis using assms Response True Some by (auto simp: discover_try_def)
        next
          case (Inr mods)
          show ?thesis
          proof (cases "truthy_opt (optional_length mods)")
            case False
            then show ?thesis using assms Response True Some Inr
              by (auto simp: discover_try_def)
          next
            case t: True
            obtain fx' r' where i: "inspect_models c fetch ?apiBase quiet mods = (fx', r')"
              by (cases "inspect_models c fetch ?apiBase quiet mods")
            then have "r' = r" using assms Response True Some Inr t
              by (auto simp: discover_try_def)
            then show ?thesis using i by blast
          qed
        qed
      qed
    qed
  qed
qed

lemma discover_try_all:
  assumes "discover_try c fetch configured quiet = (fx, Some (Inr ds))"
    and "\<And>apiBase m fx d. inspect_model c fetch apiBase m = (fx, Inr d) \<Longrightarrow> P d"
  shows "\<forall>d \<in> set ds. P d"
proof -
  let ?apiBase = "resolveOllamaApiBase (OLLAMA_API_BASE_URL c) configured"
  from discover_try_cases[OF assms(1)]
  consider "ds = []"
    | mods fx' where "inspect_models c fetch ?apiBase quiet mods = (fx', Some (Inr ds))"
    by auto
  then show ?thesis
  proof cases
    case 1
    then show ?thesis by simp
  next
    case 2
    from inspect_models_cases[OF 2]
    consider "ds = []"
      | xs fx'' where "discover_batches c fetch ?apiBase (take (OLLAMA_SHOW_MAX_MODELS c) xs) 0 []
                         = (fx'', Some (Inr ds))"
      by auto
    then show ?thesis
    proof cases
      case 1
      then show ?thesis by simp
    next
      case 2
      show ?thesis by (rule discover_batches_all[OF 2]) (simp, rule assms(2))
    qed
  qed
qed

lemma discoverOllamaModels_cases:
  assumes "discoverOllamaModels penv c fetch configured quiet = (fx, r)"
  shows "r = Some (Inr []) \<or> (\<exists>fx'. discover_try c fetch configured quiet = (fx', r) \<and>
            (\<forall>e. r \<noteq> Some (Inl e)))"
proof (cases "truthy_str (VITEST penv) \<or> NODE_ENV penv = Some ''test''")
  case True
  then show ?thesis using assms by (auto simp: discoverOllamaModels_def)
next
  case False
  obtain fx' r' where t: "discover_try c fetch configured quiet = (fx', r')"
    by (cases "discover_try c fetch configured quiet")
  show ?thesis
  proof (cases r')
    case None
    then show ?thesis using assms False t by (auto simp: discoverOllamaModels_def)
  next
    case (Some res)
    then show ?thesis using assms False t
      by (cases res) (auto simp: discoverOllamaModels_def)
  qed
qed

lemma discoverOllamaModels_all:
  assumes "discoverOllamaModels penv c fetch configured quiet = (fx, Some (Inr ds))"
    and "\<And>apiBase m fx d. inspect_model c fetch apiBase m = (fx, Inr d) \<Longrightarrow> P d"
  shows "\<forall>d \<in> set ds. P d"
proof -
  from discoverOllamaModels_cases[OF assms(1)]
  consider "ds = []" | fx' where "discover_try c fetch configured quiet = (fx', Some (Inr ds))"
    by auto
  then show ?thesis
  proof cases
    case 1
    then show ?thesis by simp
  next
    case 2
    show ?thesis by (rule discover_try_all[OF 2]) (rule assms(2))
  qed
qed

text \<open>
  Claim C8. Every descriptor that discovery returns has \<open>reasoning\<close> set exactly when
  the lower-cased id contains \<open>r1\<close> or \<open>reasoning\<close>, that is, exactly when the id
  has a substring that is one of the two words up to letter case.
\<close>

theorem discovered_reasoning_flag:
  assumes "discoverOllamaModels penv c fetch configured quiet = (fx, Some (Inr ds))"
    and "d \<in> set ds"
  shows "(reasoning d \<longleftrightarrow>
            (\<exists>u v. toLowerCase (model_id d) = u @ ''r1'' @ v) \<or>
            (\<exists>u v. toLowerCase (model_id d) = u @ ''reasoning'' @ v)) \<and>
         (reasoning d \<longleftrightarrow>
            (\<exists>u w v. model_id d = u @ w @ v \<and>
               (toLowerCase w = ''r1'' \<or> toLowerCase w = ''reasoning'')))"
proof -
  have "\<forall>d \<in> set ds. reasoning d =
          (includes_str (toLowerCase (model_id d)) ''r1'' \<or>
           includes_str (toLowerCase (model_id d)) ''reasoning'')"
    by (rule discoverOllamaModels_all[OF assms(1)]) (rule inspect_model_InrD)
  then have r: "reasoning d \<longleftrightarrow>
            (\<exists>u v. toLowerCase (model_id d) = u @ ''r1'' @ v) \<or>
            (\<exists>u v. toLowerCase (model_id d) = u @ ''reasoning'' @ v)"
    using assms(2) by (simp add: includes_str_iff)
  have "(\<exists>u v. toLowerCase (model_id d) = u @ ''r1'' @ v) \<or>
        (\<exists>u v. toLowerCase (model_id d) = u @ ''reasoning'' @ v) \<longleftrightarrow>
        (\<exists>u w v. model_id d = u @ w @ v \<and>
               (toLowerCase w = ''r1'' \<or> toLowerCase w = ''reasoning''))"
    unfolding toLowerCase_append_iff by blast
  with r show ?thesis by blast
qed

lemma is_probe_probe_of [simp]: "is_probe (probe_of apiBase s)"
  by (simp add: probe_of_def)

lemma filter_is_probe_map [simp]:
  "filter is_probe (map (probe_of apiBase \<circ> model_id) ds) = map (probe_of apiBase \<circ> model_id) ds"
  by (induction ds) simp_all

lemma run_batch_ok:
  assumes "\<forall>m \<in> set ms. tag_name m \<noteq> None"
  shows "\<exists>ds. run_batch c fetch apiBase ms = (map (probe_of apiBase \<circ> model_id) ds, Inr ds) \<and>
              map (Some \<circ> model_id) ds = map tag_name ms"
  using assms
proof (induction ms)
  case Nil
  then show ?case by simp
next
  case (Cons m ms)
  then obtain s where s: "tag_name m = Some s" by auto
  obtain d where d: "inspect_model c fetch apiBase m = ([probe_of apiBase s], Inr d)" "model_id d = s"
    using inspect_model_ok[OF s] by blast
  have "\<forall>m \<in> set ms. tag_name m \<noteq> None" using Cons.prems by simp
  from Cons.IH[OF this]
  obtain ds where ds: "run_batch c fetch apiBase ms = (map (probe_of apiBase \<circ> model_id) ds, Inr ds)"
    "map (Some \<circ> model_id) ds = map tag_name ms"
    by blast
  have "run_batch c fetch apiBase (m # ms) = (map (probe_of apiBase \<circ> model_id) (d # ds), Inr (d # ds))"
    using d ds(1) by simp
  moreover have "map (Some \<circ> model_id) (d # ds) = map tag_name (m # ms)"
    using d(2) ds(2) s by simp
  ultimately show ?case by blast
qed

lemma discover_batches_ok:
  assumes "OLLAMA_SHOW_CONCURRENCY c \<noteq> 0" and "\<forall>m \<in> set xs. tag_name m \<noteq> None"
  shows "\<exists>ds. discover_batches c fetch apiBase xs i acc
                 = (map (probe_of apiBase \<circ> model_id) ds, Some (Inr (acc @ ds))) \<and>
              map (Some \<circ> model_id) ds = map tag_name (drop i xs)"
proof (induction "length xs - i" arbitrary: i acc rule: less_induct)
  case less
  let ?K = "OLLAMA_SHOW_CONCURRENCY c"
  show ?case
  proof (cases "i < length xs")
    case False
    then have "discover_batches c fetch apiBase xs i acc
                 = (map (probe_of apiBase \<circ> model_id) [], Some (Inr (acc @ [])))"
      by (simp add: discover_batches_done)
    moreover have "map (Some \<circ> model_id) [] = map tag_name (drop i xs)" using False by simp
    ultimately show ?thesis by blast
  next
    case True
    have "\<forall>m \<in> set (slice xs i (i + ?K)). tag_name m \<noteq> None"
      using assms(2) by (auto simp: slice_def dest!: in_set_takeD in_set_dropD)
    then obtain bd where bd:
      "run_batch c fetch apiBase (slice xs i (i + ?K)) = (map (probe_of apiBase \<circ> model_id) bd, Inr bd)"
      "map (Some \<circ> model_id) bd = map tag_name (slice xs i (i + ?K))"
      using run_batch_ok by blast
    have "length xs - (i + ?K) < length xs - i" using True assms(1) by simp
    then obtain ds where ds:
      "discover_batches c fetch apiBase xs (i + ?K) (acc @ bd)
         = (map (probe_of apiBase \<circ> model_id) ds, Some (Inr ((acc @ bd) @ ds)))"
      "map (Some \<circ> model_id) ds = map tag_name (drop (i + ?K) xs)"
      using less.hyps by blast
    have "discover_batches c fetch apiBase xs i acc
            = (map (probe_of apiBase \<circ> model_id) (bd @ ds), Some (Inr (acc @ (bd @ ds))))"
      using discover_batches_step[OF True assms(1) bd(1) ds(1)] by simp
    moreover have "drop (i + ?K) xs = drop ?K (drop i xs)"
      by (simp add: add.commute)
    then have "slice xs i (i + ?K) @ drop (i + ?K) xs = drop i xs"
      by (simp only: slice_def add_diff_cancel_left' append_take_drop_id)
    then have "map (Some \<circ> model_id) (bd @ ds) = map tag_name (drop i xs)"
      using bd(2) ds(2) by (metis map_append)
    ultimately show ?thesis by blast
  qed
qed

text \<open>
  Claim C5, as the code has it. Outside a test run, with a concurrency of at least 1 and
  a tag list of \<open>L\<close> elements of which the first \<open>min L C\<close> have the shape
  \<open>{ name: string }\<close>, discovery sends exactly \<open>min L C\<close> probes, those for the
  first \<open>min L C\<close> models in order, and returns one descriptor for each of them.
\<close>

theorem discoverOllamaModels_probes_min:
  assumes "\<not> truthy_str (VITEST penv)" and "NODE_ENV penv \<noteq> Some ''test''"
    and "apiBase = resolveOllamaApiBase (OLLAMA_API_BASE_URL c) configured"
    and "fetch (GetTags (apiBase @ ''/api/tags'')) = Response True status (Some data)"
    and "get_member data ''models'' = Inr (Some (JArr tags))"
    and "\<forall>m \<in> set (take (OLLAMA_SHOW_MAX_MODELS c) tags). tag_name m \<noteq> None"
    and "1 \<le> OLLAMA_SHOW_CONCURRENCY c"
  shows "\<exists>fx ds. discoverOllamaModels penv c fetch configured quiet = (fx, Some (Inr ds)) \<and>
           filter is_probe fx = map (probe_of apiBase \<circ> model_id) ds \<and>
           length (filter is_probe fx) = min (length tags) (OLLAMA_SHOW_MAX_MODELS c) \<and>
           length ds = min (length tags) (OLLAMA_SHOW_MAX_MODELS c) \<and>
           map (Some \<circ> model_id) ds = map tag_name (take (OLLAMA_SHOW_MAX_MODELS c) tags)"
proof (cases "tags = []")
  case True
  have "discoverOllamaModels penv c fetch configured quiet
          = ([Fetch (GetTags (apiBase @ ''/api/tags'')), Debug NoModelsFound], Some (Inr []))"
    using assms(1-5) True
    by (simp add: discoverOllamaModels_def discover_try_def truthy_opt_def)
  then show ?thesis using True by simp
next
  case False
  let ?C = "OLLAMA_SHOW_MAX_MODELS c"
  let ?warn = "if length (take ?C tags) < length tags \<and> \<not> quiet
               then [Warn (Capping ?C (length tags))] else []"
  have K: "OLLAMA_SHOW_CONCURRENCY c \<noteq> 0" using assms(7) by simp
  from discover_batches_ok[OF K assms(6), of fetch apiBase 0 "[]"]
  obtain ds where ds:
    "discover_batches c fetch apiBase (take ?C tags) 0 []
       = (map (probe_of apiBase \<circ> model_id) ds, Some (Inr ds))"
    "map (Some \<circ> model_id) ds = map tag_name (take ?C tags)"
    by auto
  have im: "inspect_models c fetch apiBase quiet (Some (JArr tags))
          = (?warn @ map (probe_of apiBase \<circ> model_id) ds, Some (Inr ds))"
    using ds(1) K by (simp add: inspect_models_def limit_of_nat Let_def)
  have dt: "discover_try c fetch configured quiet
          = (Fetch (GetTags (apiBase @ ''/api/tags'')) # ?warn @ map (probe_of apiBase \<circ> model_id) ds,
             Some (Inr ds))"
    using assms(3-5) False im
    by (simp add: discover_try_def truthy_opt_def Let_def)
  have d: "discoverOllamaModels penv c fetch configured quiet
          = (Fetch (GetTags (apiBase @ ''/api/tags'')) # ?warn @ map (probe_of apiBase \<circ> model_id) ds,
             Some (Inr ds))"
    using assms(1,2) dt by (simp add: discoverOllamaModels_def)
  have len: "length ds = min (length tags) ?C"
    using ds(2) by (metis length_map length_take)
  have f: "filter is_probe (Fetch (GetTags (apiBase @ ''/api/tags'')) # ?warn @ map (probe_of apiBase \<circ> model_id) ds)
        = map (probe_of apiBase \<circ> model_id) ds"
    by simp
  show ?thesis using d f len ds(2) by (metis length_map)
qed

lemma discover_batches_returns:
  assumes "OLLAMA_SHOW_CONCURRENCY c \<noteq> 0"
  shows "\<exists>fx r. discover_batches c fetch apiBase xs i acc = (fx, Some r)"
proof (induction "length xs - i" arbitrary: i acc rule: less_induct)
  case less
  let ?K = "OLLAMA_SHOW_CONCURRENCY c"
  show ?case
  proof (cases "i < length xs")
    case False
    then show ?thesis by (simp add: discover_batches_done)
  next
    case True
    obtain fxb rb where b: "run_batch c fetch apiBase (slice xs i (i + ?K)) = (fxb, rb)"
      by (cases "run_batch c fetch apiBase (slice xs i (i + ?K))")
    show ?thesis
    proof (cases rb)
      case (Inl e)
      then show ?thesis using discover_batches_fail[OF True assms b[unfolded Inl]] by simp
    next
      case (Inr bd)
      have "length xs - (i + ?K) < length xs - i" using True assms by simp
      then obtain fx' r' where
        "discover_batches c fetch apiBase xs (i + ?K) (acc @ bd) = (fx', Some r')"
        using less.hyps by blast
      from discover_batches_step[OF True assms b[unfolded Inr] this]
      show ?thesis by blast
    qed
  qed
qed

lemma discover_try_returns:
  "\<exists>fx r. discover_try c fetch configured quiet = (fx, Some r)"
proof -
  obtain fx r where t: "discover_try c fetch configured quiet = (fx, r)"
    by (cases "discover_try c fetch configured quiet")
  from discover_try_cases[OF t] have "\<exists>res. r = Some res"
  proof (elim disjE exE)
    fix mods fx'
    assume "inspect_models c fetch (resolveOllamaApiBase (OLLAMA_API_BASE_URL c) configured)
              quiet mods = (fx', r)"
    from inspect_models_cases[OF this] discover_batches_returns
    show "\<exists>res. r = Some res" by (metis prod.inject)
  qed auto
  with t show ?thesis by blast
qed

text \<open>
  Claim C7. \<open>discoverOllamaModels\<close> always returns a list and never throws or hangs.
  The list is empty under a test runner, whenever the \<open>try\<close> block throws, when the
  request fails, when the response is not OK and when its body is not JSON.
\<close>

theorem discoverOllamaModels_never_throws:
  "(\<exists>fx ms. discoverOllamaModels penv c fetch configured quiet = (fx, Some (Inr ms))) \<and>
   (truthy_str (VITEST penv) \<or> NODE_ENV penv = Some ''test'' \<longrightarrow>
      discoverOllamaModels penv c fetch configured quiet = ([], Some (Inr []))) \<and>
   (\<forall>e. snd (discover_try c fetch configured quiet) = Some (Inl e) \<longrightarrow>
      snd (discoverOllamaModels penv c fetch configured quiet) = Some (Inr [])) \<and>
   (fetch (GetTags (resolveOllamaApiBase (OLLAMA_API_BASE_URL c) configured @ ''/api/tags''))
      = FetchFails \<longrightarrow>
      snd (discoverOllamaModels penv c fetch configured quiet) = Some (Inr [])) \<and>
   (\<forall>status body.
      fetch (GetTags (resolveOllamaApiBase (OLLAMA_API_BASE_URL c) configured @ ''/api/tags''))
        = Response False status body \<longrightarrow>
      snd (discoverOllamaModels penv c fetch configured quiet) = Some (Inr [])) \<and>
   (\<forall>status.
      fetch (GetTags (resolveOllamaApiBase (OLLAMA_API_BASE_URL c) configured @ ''/api/tags''))
        = Response True status None \<longrightarrow>
      snd (discoverOllamaModels penv c fetch configured quiet) = Some (Inr []))"
proof (intro conjI allI impI)
  obtain fx r where d: "discoverOllamaModels penv c fetch configured quiet = (fx, r)"
    by (cases "discoverOllamaModels penv c fetch configured quiet")
  from discoverOllamaModels_cases[OF d] discover_try_returns[of c fetch configured quiet]
  have "\<exists>ms. r = Some (Inr ms)"
    by (metis prod.inject sum.exhaust)
  with d show "\<exists>fx ms. discoverOllamaModels penv c fetch configured quiet = (fx, Some (Inr ms))"
    by blast
next
  assume "truthy_str (VITEST penv) \<or> NODE_ENV penv = Some ''test''"
  then show "discoverOllamaModels penv c fetch configured quiet = ([], Some (Inr []))"
    by (auto simp: discoverOllamaModels_def)
next
  fix e assume "snd (discover_try c fetch configured quiet) = Some (Inl e)"
  then show "snd (discoverOllamaModels penv c fetch configured quiet) = Some (Inr [])"
    by (cases "discover_try c fetch configured quiet") (simp add: discoverOllamaModels_def)
next
  assume "fetch (GetTags (resolveOllamaApiBase (OLLAMA_API_BASE_URL c) configured @ ''/api/tags''))
      = FetchFails"
  then show "snd (discoverOllamaModels penv c fetch configured quiet) = Some (Inr [])"
    by (simp add: discoverOllamaModels_def discover_try_def)
next
  fix status body
  assume "fetch (GetTags (resolveOllamaApiBase (OLLAMA_API_BASE_URL c) configured @ ''/api/tags''))
        = Response False status body"
  then show "snd (discoverOllamaModels penv c fetch configured quiet) = Some (Inr [])"
    by (simp add: discoverOllamaModels_def discover_try_def)
next
  fix status
  assume "fetch (GetTags (resolveOllamaApiBase (OLLAMA_API_BASE_URL c) configured @ ''/api/tags''))
        = Response True status None"
  then show "snd (discoverOllamaModels penv c fetch configured quiet) = Some (Inr [])"
    by (simp add: discoverOllamaModels_def discover_try_def)
qed

text \<open>
  Three models listed, a cap of two and batches of one: two probes, two descriptors.
\<close>

theorem discoverOllamaModels_probes_min_witness:
  "\<not> truthy_str (VITEST example_env) \<and> NODE_ENV example_env \<noteq> Some ''test'' \<and>
   example_backend (GetTags (''http://127.0.0.1:11434'' @ ''/api/tags''))
     = Response True 200 (Some (JObj [(''models'', JArr example_tags)])) \<and>
   map tag_name example_tags = [Some ''DeepSeek-R1:7b'', Some ''llama3'', Some ''qwen2''] \<and>
   1 \<le> OLLAMA_SHOW_CONCURRENCY example_consts \<and>
   length example_tags = 3 \<and> OLLAMA_SHOW_MAX_MODELS example_consts = 2 \<and>
   (\<exists>fx ds. discoverOllamaModels example_env example_consts example_backend None False
               = (fx, Some (Inr ds)) \<and>
            length (filter is_probe fx) = 2 \<and> length ds = 2 \<and>
            map (Some \<circ> model_id) ds = [Some ''DeepSeek-R1:7b'', Some ''llama3''])"
proof -
  have h1: "\<not> truthy_str (VITEST example_env)"
    by (simp add: example_env_def truthy_str_def)
  have h2: "NODE_ENV example_env \<noteq> Some ''test''" by (simp add: example_env_def)
  have h3: "''http://127.0.0.1:11434'' = resolveOllamaApiBase (OLLAMA_API_BASE_URL example_consts) None"
    by (simp add: resolveOllamaApiBase_def truthy_str_def example_consts_def)
  have h4: "example_backend (GetTags (''http://127.0.0.1:11434'' @ ''/api/tags''))
     = Response True 200 (Some (JObj [(''models'', JArr example_tags)]))"
    by (simp add: example_backend_def)
  have h5: "get_member (JObj [(''models'', JArr example_tags)]) ''models''
     = Inr (Some (JArr example_tags))" by simp
  have h6: "\<forall>m \<in> set (take (OLLAMA_SHOW_MAX_MODELS example_consts) example_tags).
              tag_name m \<noteq> None"
    by (simp add: example_consts_def example_tags_def tag_name_def)
  have h7: "1 \<le> OLLAMA_SHOW_CONCURRENCY example_consts" by (simp add: example_consts_def)
  have c: "OLLAMA_SHOW_MAX_MODELS example_consts = 2" by (simp add: example_consts_def)
  have t: "map tag_name (take 2 example_tags) = [Some ''DeepSeek-R1:7b'', Some ''llama3'']"
    by (simp add: example_tags_def tag_name_def)
  have l: "length example_tags = 3" by (simp add: example_tags_def)
  from discoverOllamaModels_probes_min[where penv = example_env and c = example_consts
      and fetch = example_backend and configured = None and quiet = False,
      OF h1 h2 h3 h4 h5 h6 h7]
  have e: "\<exists>fx ds. discoverOllamaModels example_env example_consts example_backend None False
               = (fx, Some (Inr ds)) \<and>
            length (filter is_probe fx) = 2 \<and> length ds = 2 \<and>
            map (Some \<circ> model_id) ds = [Some ''DeepSeek-R1:7b'', Some ''llama3'']"
    using c t l by auto
  have n: "map tag_name example_tags = [Some ''DeepSeek-R1:7b'', Some ''llama3'', Some ''qwen2'']"
    by (simp add: example_tags_def tag_name_def)
  show ?thesis using h1 h2 h4 n h7 c l e by blast
qed

text \<open>
  Three elements listed under a cap of ten, the second with the name \<open>5\<close>: the first
  batch succeeds, the closure of the second sends its probe and then throws on
  \<open>toLowerCase\<close>, and the \<open>catch\<close> returns the empty list. Two probes were sent and
  no descriptor is returned, where \<open>min L C\<close> is three. And with a concurrency of
  \<open>0\<close> on the example backend \<open>limit\<close> throws: no probe is sent.
\<close>

theorem discoverOllamaModels_malformed_counterexample:
  "malformed_backend (GetTags ''http://127.0.0.1:11434/api/tags'')
     = Response True 200 (Some (JObj [(''models'', JArr malformed_tags)])) \<and>
   length malformed_tags = 3 \<and>
   discoverOllamaModels example_env (example_consts\<lparr>OLLAMA_SHOW_MAX_MODELS := 10\<rparr>)
       malformed_backend None False
     = ([Fetch (GetTags ''http://127.0.0.1:11434/api/tags''),
         Fetch (PostShow ''http://127.0.0.1:11434/api/show'' (Some (JStr ''llama3''))),
         Fetch (PostShow ''http://127.0.0.1:11434/api/show'' (Some (JNum (Fin 5)))),
         Warn (FailedExn TypeError)],
        Some (Inr [])) \<and>
   length (filter is_probe
     (fst (discoverOllamaModels example_env (example_consts\<lparr>OLLAMA_SHOW_MAX_MODELS := 10\<rparr>)
             malformed_backend None False))) = 2 \<and>
   min (length malformed_tags) 10 = 3 \<and>
   discoverOllamaModels example_env (example_consts\<lparr>OLLAMA_SHOW_CONCURRENCY := 0\<rparr>)
       example_backend None False
     = ([Fetch (GetTags ''http://127.0.0.1:11434/api/tags''), Warn (Capping 2 3),
         Warn (FailedExn (ConfigError ''Concurrency limit must be >= 1''))],
        Some (Inr []))"
  by code_simp

text \<open>
  A backend that is not running, and the example backend.
\<close>

theorem discoverOllamaModels_never_throws_witness:
  "unreachable_backend
     (GetTags (resolveOllamaApiBase (OLLAMA_API_BASE_URL example_consts) None @ ''/api/tags''))
     = FetchFails \<and>
   snd (discoverOllamaModels example_env example_consts unreachable_backend None False)
     = Some (Inr []) \<and>
   (\<exists>fx ms. discoverOllamaModels example_env example_consts example_backend None False
       = (fx, Some (Inr ms)))"
proof -
  have h: "unreachable_backend
     (GetTags (resolveOllamaApiBase (OLLAMA_API_BASE_URL example_consts) None @ ''/api/tags''))
     = FetchFails" by (simp add: unreachable_backend_def)
  from discoverOllamaModels_never_throws[of example_env example_consts unreachable_backend None False]
    discoverOllamaModels_never_throws[of example_env example_consts example_backend None False] h
  show ?thesis by blast
qed

text \<open>
  \<open>DeepSeek-R1:7b\<close> is classified as reasoning, \<open>llama3\<close> is not.
\<close>

theorem discovered_reasoning_flag_witness:
  "discoverOllamaModels example_env example_consts example_backend None False
     = ([Fetch (GetTags ''http://127.0.0.1:11434/api/tags''), Warn (Capping 2 3),
         probe_of ''http://127.0.0.1:11434'' ''DeepSeek-R1:7b'',
         probe_of ''http://127.0.0.1:11434'' ''llama3''],
        Some (Inr [\<lparr>model_id = ''DeepSeek-R1:7b'', name = ''DeepSeek-R1:7b'', reasoning = True,
                     input = [''text''], cost = OLLAMA_DEFAULT_COST example_consts,
                     contextWindow = 128000, maxTokens = 8192\<rparr>,
                   \<lparr>model_id = ''llama3'', name = ''llama3'', reasoning = False,
                     input = [''text''], cost = OLLAMA_DEFAULT_COST example_consts,
                     contextWindow = 8192, maxTokens = 8192\<rparr>])) \<and>
   (\<exists>u w v. ''DeepSeek-R1:7b'' = u @ w @ v \<and>
              (toLowerCase w = ''r1'' \<or> toLowerCase w = ''reasoning'')) \<and>
   \<not> (\<exists>u w v. ''llama3'' = u @ w @ v \<and>
              (toLowerCase w = ''r1'' \<or> toLowerCase w = ''reasoning''))"
proof -
  let ?d1 = "\<lparr>model_id = ''DeepSeek-R1:7b'', name = ''DeepSeek-R1:7b'', reasoning = True,
                     input = [''text''], cost = OLLAMA_DEFAULT_COST example_consts,
                     contextWindow = 128000, maxTokens = 8192\<rparr>"
  let ?d2 = "\<lparr>model_id = ''llama3'', name = ''llama3'', reasoning = False,
                     input = [''text''], cost = OLLAMA_DEFAULT_COST example_consts,
                     contextWindow = 8192, maxTokens = 8192\<rparr>"
  have run: "discoverOllamaModels example_env example_consts example_backend None False
     = ([Fetch (GetTags ''http://127.0.0.1:11434/api/tags''), Warn (Capping 2 3),
         probe_of ''http://127.0.0.1:11434'' ''DeepSeek-R1:7b'',
         probe_of ''http://127.0.0.1:11434'' ''llama3''],
        Some (Inr [?d1, ?d2]))"
    by code_simp
  have m1: "?d1 \<in> set [?d1, ?d2]" and m2: "?d2 \<in> set [?d1, ?d2]" by simp_all
  from discovered_reasoning_flag[OF run m1] discovered_reasoning_flag[OF run m2] run
  show ?thesis by simp
qed


section \<open>The resolver\<close>

text \<open>
  Claim C1, as the code has it. When discovery yields no models and no API key resolves
  to a non-empty string: without a readable cache file the resolver returns the empty
  map, and when the cache file holds an object whose \<open>ollama\<close> member is truthy the
  resolver returns exactly that member; the file is left as it is.
\<close>

theorem resolveImplicitProviders_cache_fallback:
  assumes "\<not> truthy_str (case envKey of Some k \<Rightarrow> Some k | None \<Rightarrow> profileKey)"
    and "discoverOllamaModels penv c fetch
           (case explicitOllama params of None \<Rightarrow> None | Some cfg \<Rightarrow> cfg)
           (explicitOllama params = None) = (fx, Some (Inr []))"
  shows "(cache fs = Absent \<or> cache fs = Corrupt \<longrightarrow>
            resolveImplicitProviders penv c fetch envKey profileKey params fs
              = (fx @ [LoadCache], Some (Inr []), fs)) \<and>
         (\<forall>kvs entry. cache fs = Holds (JObj kvs) \<and> map_of kvs ''ollama'' = Some entry \<and>
                      truthy entry \<longrightarrow>
            resolveImplicitProviders penv c fetch envKey profileKey params fs
              = (fx @ [LoadCache], Some (Inr [(''ollama'', entry)]), fs))"
  using assms
  by (auto simp: resolveImplicitProviders_def buildOllamaProvider_def loadModelCache_def Let_def)

lemma unreachable_discovery:
  "discoverOllamaModels example_env example_consts unreachable_backend None quiet
     = (Fetch (GetTags ''http://127.0.0.1:11434/api/tags'') #
          (if quiet then [] else [Warn (FailedExn NetworkError)]),
        Some (Inr []))"
  by (simp add: discoverOllamaModels_def discover_try_def example_env_def example_consts_def
      unreachable_backend_def truthy_str_def resolveOllamaApiBase_def)

text \<open>
  No key, no backend: first without a cache file, then with a cached entry.
\<close>

theorem resolveImplicitProviders_cache_fallback_witness:
  "\<not> truthy_str (case None of Some k \<Rightarrow> Some k | None \<Rightarrow> (None :: string option)) \<and>
   discoverOllamaModels example_env example_consts unreachable_backend None True
     = ([Fetch (GetTags ''http://127.0.0.1:11434/api/tags'')], Some (Inr [])) \<and>
   resolveImplicitProviders example_env example_consts unreachable_backend None None
       example_params \<lparr>cache = Absent, cache_writable = True\<rparr>
     = ([Fetch (GetTags ''http://127.0.0.1:11434/api/tags''), LoadCache], Some (Inr []),
        \<lparr>cache = Absent, cache_writable = True\<rparr>) \<and>
   resolveImplicitProviders example_env example_consts unreachable_backend None None
       example_params \<lparr>cache = Holds (JObj [(''ollama'', example_cached_entry)]),
                       cache_writable = True\<rparr>
     = ([Fetch (GetTags ''http://127.0.0.1:11434/api/tags''), LoadCache],
        Some (Inr [(''ollama'', example_cached_entry)]),
        \<lparr>cache = Holds (JObj [(''ollama'', example_cached_entry)]), cache_writable = True\<rparr>)"
proof -
  have k: "\<not> truthy_str (case None of Some k \<Rightarrow> Some k | None \<Rightarrow> (None :: string option))"
    by (simp add: truthy_str_def)
  have d: "discoverOllamaModels example_env example_consts unreachable_backend
             (case explicitOllama example_params of None \<Rightarrow> None | Some cfg \<Rightarrow> cfg)
             (explicitOllama example_params = None)
           = ([Fetch (GetTags ''http://127.0.0.1:11434/api/tags'')], Some (Inr []))"
    by (simp add: unreachable_discovery example_params_def)
  have t: "truthy example_cached_entry" by (simp add: example_cached_entry_def)
  note th = resolveImplicitProviders_cache_fallback[where envKey = None and profileKey = None, OF k d]
  from th[of "\<lparr>cache = Absent, cache_writable = True\<rparr>"]
    th[of "\<lparr>cache = Holds (JObj [(''ollama'', example_cached_entry)]), cache_writable = True\<rparr>"]
    t k unreachable_discovery[of True]
  show ?thesis by simp
qed

text \<open>
  With a key the unreachable backend still gives an entry: the result is not empty when
  there is no cache file, and it is not the cached entry when there is one.
\<close>

theorem resolveImplicitProviders_key_counterexample:
  "discoverOllamaModels example_env example_consts unreachable_backend None False
     = ([Fetch (GetTags ''http://127.0.0.1:11434/api/tags''), Warn (FailedExn NetworkError)],
        Some (Inr [])) \<and>
   fst (snd (resolveImplicitProviders example_env example_consts unreachable_backend
               (Some ''OLLAMA_API_KEY'') None example_params
               \<lparr>cache = Absent, cache_writable = True\<rparr>))
     = Some (Inr [(''ollama'',
          JObj [(''baseUrl'', JStr ''http://127.0.0.1:11434''), (''api'', JStr ''ollama''),
                (''models'', JArr []), (''apiKey'', JStr ''OLLAMA_API_KEY'')])]) \<and>
   fst (snd (resolveImplicitProviders example_env example_consts unreachable_backend
               (Some ''OLLAMA_API_KEY'') None example_params
               \<lparr>cache = Holds (JObj [(''ollama'', example_cached_entry)]),
                 cache_writable = True\<rparr>))
     = Some (Inr [(''ollama'',
          JObj [(''baseUrl'', JStr ''http://127.0.0.1:11434''), (''api'', JStr ''ollama''),
                (''models'', JArr []), (''apiKey'', JStr ''OLLAMA_API_KEY'')])])"
  by code_simp

text \<open>
  The fallback reads \<open>cached.ollama\<close> outside any \<open>try\<close>: a cache file whose text is
  \<open>null\<close> parses, and the property read on it throws.
\<close>

lemma resolveImplicitProviders_null_cache_throws:
  "fst (snd (resolveImplicitProviders example_env example_consts unreachable_backend None None
               example_params \<lparr>cache = Holds JNull, cache_writable = True\<rparr>))
     = Some (Inl TypeError)"
  by code_simp




end
